theory Spec2Isabelle
  imports Complex_Main "HOL-Library.Multiset"
begin

section \<open>Cells, rows and frames\<close>

text \<open>
  The program keeps its records in pandas frames. A cell of a frame is a missing value
  (\<open>NaN\<close> or \<open>None\<close>), a text, a finite number, or one of the two infinite floats
  (\<open>Infty True\<close> is \<open>inf\<close>, \<open>Infty False\<close> is \<open>-inf\<close>). A finite number is the exact
  rational value of the \<open>float64\<close> or \<open>int64\<close> the program holds. A text is a list of
  \<open>char\<close>, so it ranges over the first 256 code points. A row is a dictionary from
  column names to cells, and a frame is its ordered list of column names with its
  ordered list of rows. A cell is read through \<open>cell_of\<close>; a key that a row does not
  hold reads as the missing value.
\<close>

datatype cell = Null | Txt string | Num rat | Infty bool

type_synonym row = "string \<rightharpoonup> cell"

record dataframe =
  columns :: "string list"
  rows :: "row list"

text \<open>
  The exceptions the program can raise are values. \<open>OutsideExactRange\<close> is not an
  exception: it marks the places where the program computes in \<open>float64\<close> or \<open>int64\<close>
  beyond the numbers these hold exactly (a whole number above \<open>2^53\<close> stored in a float
  column is rounded, a cast to \<open>int64\<close> above \<open>2^63\<close> wraps around, and converting
  such a Python integer can raise \<open>OverflowError\<close>). What the program returns there is
  not described here, and no theorem of this development concludes \<open>OutsideExactRange\<close>.
\<close>

datatype error = KeyError | ValueError | IntCastingNaNError | OverflowError | OutsideExactRange

definition bind_err :: "error + 'a \<Rightarrow> ('a \<Rightarrow> error + 'b) \<Rightarrow> error + 'b" where
  "bind_err m f = (case m of Inl e \<Rightarrow> Inl e | Inr x \<Rightarrow> f x)"

definition cell_of :: "row \<Rightarrow> string \<Rightarrow> cell" where
  "cell_of r c = (case r c of Some v \<Rightarrow> v | None \<Rightarrow> Null)"

text \<open>\<open>df.empty\<close>: no rows, or no columns.\<close>

definition empty_df :: "dataframe \<Rightarrow> bool" where
  "empty_df df = (rows df = [] \<or> columns df = [])"

text \<open>\<open>pd.DataFrame(columns=cols)\<close>.\<close>

definition new_frame :: "string list \<Rightarrow> dataframe" where
  "new_frame cols = \<lparr>columns = cols, rows = []\<rparr>"

text \<open>\<open>df[c]\<close> as a list of cells, and \<open>df[c] = values\<close> for a column the frame has.\<close>

definition col :: "string \<Rightarrow> dataframe \<Rightarrow> cell list" where
  "col c df = map (\<lambda>r. cell_of r c) (rows df)"

definition set_col :: "string \<Rightarrow> cell list \<Rightarrow> dataframe \<Rightarrow> dataframe" where
  "set_col c vs df = df\<lparr>rows := map2 (\<lambda>r v. r(c \<mapsto> v)) (rows df) vs\<rparr>"

text \<open>\<open>df[c] = v\<close> for a scalar \<open>v\<close> and a column the frame does not have yet.\<close>

definition add_column :: "string \<Rightarrow> cell \<Rightarrow> dataframe \<Rightarrow> dataframe" where
  "add_column c v df =
     \<lparr>columns = columns df @ [c], rows = map (\<lambda>r. r(c \<mapsto> v)) (rows df)\<rparr>"

text \<open>
  \<open>df[c] = f(df[c])\<close> for an elementwise \<open>f\<close>; reading a column the frame does not
  have raises \<open>KeyError\<close>.
\<close>

definition apply_col :: "string \<Rightarrow> (cell \<Rightarrow> cell) \<Rightarrow> dataframe \<Rightarrow> error + dataframe" where
  "apply_col c f df =
     (if c \<in> set (columns df) then Inr (set_col c (map f (col c df)) df) else Inl KeyError)"

subsection \<open>Elementwise operations of pandas\<close>

definition fillna :: "cell \<Rightarrow> cell \<Rightarrow> cell" where
  "fillna d v = (case v of Null \<Rightarrow> d | _ \<Rightarrow> v)"

definition replace_val :: "string \<Rightarrow> string \<Rightarrow> cell \<Rightarrow> cell" where
  "replace_val a b v = (if v = Txt a then Txt b else v)"

definition isin :: "cell \<Rightarrow> string list \<Rightarrow> bool" where
  "isin v xs = (case v of Txt s \<Rightarrow> s \<in> set xs | _ \<Rightarrow> False)"

text \<open>
  \<open>pd.to_numeric(..., errors="coerce")\<close> on one cell. How pandas reads a text as a number
  is not part of the repository: the reader \<open>to_num\<close> is a parameter, and every theorem
  that names \<open>to_num\<close> holds for every reader. A text is not read as a number
  (\<open>Unread\<close>, which \<open>errors="coerce"\<close> turns into the missing value), or it is read as a
  finite number, or as one of the two infinite floats (as the texts \<open>inf\<close> and \<open>-inf\<close>
  are).
\<close>

datatype reading = Unread | Finite rat | Infinite bool

definition to_numeric :: "(string \<Rightarrow> reading) \<Rightarrow> cell \<Rightarrow> cell" where
  "to_numeric to_num v =
     (case v of
        Txt s \<Rightarrow> (case to_num s of Unread \<Rightarrow> Null | Finite q \<Rightarrow> Num q | Infinite b \<Rightarrow> Infty b)
      | _ \<Rightarrow> v)"

text \<open>
  \<open>series.astype(str).str.strip().eq("")\<close> on one cell: a text is blank when it holds
  nothing but white space. \<open>str.strip\<close> removes the characters \<open>str.isspace\<close> accepts;
  among the first 256 code points these are the ASCII ones, \<open>U+0085\<close> and \<open>U+00A0\<close>.
  The text of a number or of a missing value is never blank.
\<close>

definition py_isspace :: "char \<Rightarrow> bool" where
  "py_isspace c = ((of_char c :: nat) \<in> {9, 10, 11, 12, 13, 28, 29, 30, 31, 32, 133, 160})"

definition is_blank :: "string \<Rightarrow> bool" where
  "is_blank s = list_all py_isspace s"

definition blank_cell :: "cell \<Rightarrow> bool" where
  "blank_cell v = (case v of Txt s \<Rightarrow> is_blank s | _ \<Rightarrow> False)"

text \<open>Python's \<open>int(x)\<close> and numpy's \<open>astype(int)\<close> on a float: truncation towards zero.\<close>

definition py_int :: "rat \<Rightarrow> int" where
  "py_int q = (if 0 \<le> q then \<lfloor>q\<rfloor> else \<lceil>q\<rceil>)"

section \<open>Constants of the program\<close>

definition LEAGUES :: "string list" where
  "LEAGUES = [''Serie A'', ''Serie B'', ''Premier League'', ''Bundesliga'', ''Liga'',
     ''Ligue 1'', ''Eredivisie'', ''Primeira Liga (Portogallo)'', ''Altro'']"

definition OUTCOMES :: "string list" where
  "OUTCOMES = [''In attesa'', ''Vinta'', ''Persa'']"

definition REQUIRED_COLUMNS_SINGOLE :: "string list" where
  "REQUIRED_COLUMNS_SINGOLE =
     [''ID'', ''Data'', ''Campionato'', ''Partita'', ''Mercato'', ''Quota'', ''Esito'', ''Note'']"

definition REQUIRED_COLUMNS_MULTIPLE :: "string list" where
  "REQUIRED_COLUMNS_MULTIPLE =
     [''ID'', ''Data'', ''Multipla'', ''Quota Totale'', ''Stake'', ''Esito'', ''Note'']"

section \<open>Identifier reconciliation: \<open>_ensure_ids\<close>\<close>

text \<open>
  \<open>pd.isna\<close> on one cell, the cells of a column that are not missing
  (\<open>s[s.notna()]\<close>; an infinite float is not missing), and the finite numbers among them.
\<close>

definition isna :: "cell \<Rightarrow> bool" where
  "isna v = (v = Null)"

definition notna :: "cell list \<Rightarrow> cell list" where
  "notna vs = filter (\<lambda>v. \<not> isna v) vs"

fun notna_values :: "cell list \<Rightarrow> rat list" where
  "notna_values [] = []"
| "notna_values (Num q # vs) = q # notna_values vs"
| "notna_values (v # vs) = notna_values vs"

text \<open>
  \<open>df.loc[mask, c] = values\<close> on the column: the rows the mask selects take the new
  values in order, the others keep theirs.
\<close>

fun loc_assign :: "cell list \<Rightarrow> cell list \<Rightarrow> cell list" where
  "loc_assign [] ns = []"
| "loc_assign (v # vs) ns =
     (if isna v
      then (case ns of [] \<Rightarrow> v # loc_assign vs [] | n # ns' \<Rightarrow> n # loc_assign vs ns')
      else v # loc_assign vs ns)"

text \<open>
  \<open>series.astype(int)\<close> on a numeric column. pandas first raises \<open>IntCastingNaNError\<close>
  when a value is missing or infinite. The cast is to \<open>int64\<close>: a number whose integer
  part lies in the range of \<open>int64\<close> is truncated towards zero, and a number beyond it
  wraps around, which is outside the exact range.
\<close>

definition is_num :: "cell \<Rightarrow> bool" where
  "is_num v = (case v of Num q \<Rightarrow> True | _ \<Rightarrow> False)"

definition trunc_cell :: "cell \<Rightarrow> cell" where
  "trunc_cell v = (case v of Num q \<Rightarrow> Num (of_int (py_int q)) | _ \<Rightarrow> v)"

definition in_int64 :: "int \<Rightarrow> bool" where
  "in_int64 k = (- (2 ^ 63) \<le> k \<and> k < 2 ^ 63)"

definition astype_int :: "cell list \<Rightarrow> error + cell list" where
  "astype_int vs =
     (if \<not> list_all is_num vs then Inl IntCastingNaNError
      else if \<not> list_all (\<lambda>q. in_int64 (py_int q)) (notna_values vs) then Inl OutsideExactRange
      else Inr (map trunc_cell vs))"

text \<open>\<open>range(a, a + n)\<close> as a list of numeric cells.\<close>

definition range_cells :: "int \<Rightarrow> nat \<Rightarrow> cell list" where
  "range_cells a n = map (\<lambda>k. Num (of_int (a + int k))) [0..<n]"

text \<open>
  \<open>s.max()\<close> on a numeric column (missing values are skipped), and Python's \<open>int(x)\<close>
  on the result: \<open>int\<close> of an infinite float raises \<open>OverflowError\<close>, \<open>int\<close> of \<open>NaN\<close>
  raises \<open>ValueError\<close>.
\<close>

definition col_max :: "cell list \<Rightarrow> cell" where
  "col_max vs =
     (if Infty True \<in> set vs then Infty True
      else if notna_values vs \<noteq> [] then Num (Max (set (notna_values vs)))
      else if Infty False \<in> set vs then Infty False
      else Null)"

definition int_of_cell :: "cell \<Rightarrow> error + int" where
  "int_of_cell v =
     (case v of Num q \<Rightarrow> Inr (py_int q) | Infty b \<Rightarrow> Inl OverflowError | _ \<Rightarrow> Inl ValueError)"

text \<open>
  From line 77 on, the identifiers are held in a \<open>float64\<close> column whenever one of them
  is missing or fractional, the new identifiers \<open>max_id + 1, ..., max_id + n\<close> are stored
  in that column, and the column is cast to \<open>int64\<close>. All of this is exact when no
  identifier, old or new, is larger than \<open>2^53\<close> in magnitude; \<open>_ensure_ids\<close> is
  followed within that range.
\<close>

definition exact_range :: "cell list \<Rightarrow> int \<Rightarrow> nat \<Rightarrow> bool" where
  "exact_range id_num max_id n =
     (list_all (\<lambda>q. \<bar>q\<bar> \<le> 2 ^ 53) (notna_values id_num) \<and> \<bar>max_id\<bar> + int n \<le> 2 ^ 53)"

definition ensure_ids :: "(string \<Rightarrow> reading) \<Rightarrow> dataframe \<Rightarrow> error + dataframe" where
  "ensure_ids to_num df =
     (if empty_df df then Inr df
      else bind_err (apply_col ''ID'' (to_numeric to_num) df) (\<lambda>df.
        let id_num = col ''ID'' df in
        if notna id_num \<noteq> [] \<and> \<not> distinct (notna id_num)
        then Inr (set_col ''ID'' (range_cells 1 (length (rows df))) df)
        else
          bind_err (if notna id_num \<noteq> [] then int_of_cell (col_max id_num) else Inr 0)
            (\<lambda>max_id.
          let missing = filter isna id_num in
          if \<not> exact_range id_num max_id (length missing) then Inl OutsideExactRange
          else
            let df = (if missing \<noteq> []
                      then set_col ''ID''
                             (loc_assign id_num (range_cells (max_id + 1) (length missing))) df
                      else df)
            in bind_err (astype_int (map (to_numeric to_num) (col ''ID'' df)))
                 (\<lambda>ids. Inr (set_col ''ID'' ids df)))))"

section \<open>Normalisation: \<open>_normalize\<close>\<close>

text \<open>The loop that inserts every required column the frame lacks, filled with \<open>""\<close>.\<close>

fun ensure_columns :: "string list \<Rightarrow> dataframe \<Rightarrow> dataframe" where
  "ensure_columns [] df = df"
| "ensure_columns (c # cs) df =
     ensure_columns cs (if c \<notin> set (columns df) then add_column c (Txt []) df else df)"

definition coerce_singole :: "(string \<Rightarrow> reading) \<Rightarrow> dataframe \<Rightarrow> error + dataframe" where
  "coerce_singole to_num df =
     bind_err (apply_col ''Quota'' (to_numeric to_num) df) (\<lambda>df.
     bind_err (apply_col ''Campionato'' (fillna (Txt ''Altro'')) df) (\<lambda>df.
     bind_err (apply_col ''Campionato''
                 (\<lambda>v. if isin v LEAGUES then v else Txt ''Altro'') df) (\<lambda>df.
     bind_err (apply_col ''Partita'' (fillna (Txt [])) df) (\<lambda>df.
     apply_col ''Mercato'' (fillna (Txt [])) df))))"

definition coerce_multiple :: "(string \<Rightarrow> reading) \<Rightarrow> dataframe \<Rightarrow> error + dataframe" where
  "coerce_multiple to_num df =
     bind_err (apply_col ''Quota Totale'' (to_numeric to_num) df) (\<lambda>df.
     bind_err (apply_col ''Stake'' (fillna (Num 0) \<circ> to_numeric to_num) df) (\<lambda>df.
     apply_col ''Multipla'' (fillna (Txt [])) df))"

text \<open>
  Lines 88 to 113 of \<open>_normalize\<close>, for a frame that is not empty: the required columns,
  the common fields, the fields of the kind. \<open>today\<close> is the text of
  \<open>datetime.now().strftime("%Y-%m-%d")\<close>.
\<close>

definition coerce_fields ::
  "(string \<Rightarrow> reading) \<Rightarrow> string \<Rightarrow> dataframe \<Rightarrow> string list \<Rightarrow> string \<Rightarrow> error + dataframe"
where
  "coerce_fields to_num today df required_cols kind =
     bind_err (apply_col ''Esito'' (replace_val [] ''In attesa'' \<circ> fillna (Txt []))
                 (ensure_columns required_cols df)) (\<lambda>df.
     bind_err (apply_col ''Esito''
                 (\<lambda>v. if isin v OUTCOMES then v else Txt ''In attesa'') df) (\<lambda>df.
     bind_err (apply_col ''Data'' (fillna (Txt [])) df) (\<lambda>df.
     bind_err (apply_col ''Data'' (\<lambda>v. if blank_cell v then Txt today else v) df) (\<lambda>df.
     bind_err (apply_col ''Note'' (fillna (Txt [])) df) (\<lambda>df.
     (if kind = ''singole'' then coerce_singole to_num df
      else if kind = ''multiple'' then coerce_multiple to_num df
      else Inl ValueError))))))"

text \<open>\<open>df[cols]\<close>: the listed columns, in the listed order; \<open>KeyError\<close> when one is absent.\<close>

definition select_cols :: "string list \<Rightarrow> dataframe \<Rightarrow> error + dataframe" where
  "select_cols cols df =
     (if set cols \<subseteq> set (columns df)
      then Inr \<lparr>columns = cols,
                rows = map (\<lambda>r c. if c \<in> set cols then Some (cell_of r c) else None) (rows df)\<rparr>
      else Inl KeyError)"

text \<open>
  \<open>df.sort_values(c).reset_index(drop=True)\<close> on a column of finite numbers, which the
  identifier column is at that point. pandas sorts with quicksort and does not fix the
  order of rows with equal keys; here they keep their order. The theorems of the claims
  do not rest on that choice: each is about the identifier column, about a table
  without equal identifiers, or about the rows up to their order.
\<close>

definition num_key :: "string \<Rightarrow> row \<Rightarrow> rat" where
  "num_key c r = (case cell_of r c of Num q \<Rightarrow> q | _ \<Rightarrow> 0)"

definition sort_values :: "string \<Rightarrow> dataframe \<Rightarrow> error + dataframe" where
  "sort_values c df =
     (if c \<in> set (columns df) then Inr (df\<lparr>rows := sort_key (num_key c) (rows df)\<rparr>)
      else Inl KeyError)"

definition normalize ::
  "(string \<Rightarrow> reading) \<Rightarrow> string \<Rightarrow> dataframe \<Rightarrow> string list \<Rightarrow> string \<Rightarrow> error + dataframe"
where
  "normalize to_num today df required_cols kind =
     (if empty_df df then Inr (new_frame required_cols)
      else bind_err (coerce_fields to_num today df required_cols kind) (\<lambda>df.
           bind_err (ensure_ids to_num df) (\<lambda>df.
           bind_err (select_cols required_cols df) (sort_values ''ID''))))"

section \<open>Profit of one record\<close>

text \<open>The odds and the stake are floats; \<open>None\<close> stands for \<open>NaN\<close>.\<close>

definition profit_unit_stake :: "rat option \<Rightarrow> string \<Rightarrow> rat" where
  "profit_unit_stake odds outcome =
     (case odds of
        None \<Rightarrow> 0
      | Some q \<Rightarrow>
          if outcome = ''Vinta'' then q - 1
          else if outcome = ''Persa'' then - 1
          else 0)"

definition profit_with_stake :: "rat option \<Rightarrow> string \<Rightarrow> rat option \<Rightarrow> rat" where
  "profit_with_stake odds outcome stake =
     (case (odds, stake) of
        (Some q, Some s) \<Rightarrow>
          if outcome = ''Vinta'' then s * (q - 1)
          else if outcome = ''Persa'' then - s
          else 0
      | _ \<Rightarrow> 0)"

section \<open>The store boundary: \<open>_write_generic\<close> and \<open>_load_generic\<close>\<close>

text \<open>
  \<open>pd.DataFrame(rows, columns=header)\<close> on the texts of a worksheet: pandas fills the
  rows up to the length of the longest one with missing values, and raises \<open>ValueError\<close>
  when that length is not the length of the header. A cell a short row lacks is a key
  the row does not hold. Column names are taken to be distinct.
\<close>

definition frame_of :: "string list \<Rightarrow> string list list \<Rightarrow> dataframe" where
  "frame_of header rws =
     \<lparr>columns = header, rows = map (\<lambda>vs. map_of (zip header (map Txt vs))) rws\<rparr>"

definition DataFrame :: "string list list \<Rightarrow> string list \<Rightarrow> error + dataframe" where
  "DataFrame rws header =
     (if rws = [] \<or>
         list_all (\<lambda>vs. length vs \<le> length header) rws \<and>
         list_ex (\<lambda>vs. length vs = length header) rws
      then Inr (frame_of header rws)
      else Inl ValueError)"

text \<open>
  \<open>astype(str)\<close> on one cell. The text Python gives a finite number is the parameter
  \<open>num_str\<close>; a missing number prints as \<open>nan\<close>, the infinite ones as \<open>inf\<close> and
  \<open>-inf\<close>.
\<close>

definition astype_str :: "(rat \<Rightarrow> string) \<Rightarrow> cell \<Rightarrow> string" where
  "astype_str num_str v =
     (case v of
        Null \<Rightarrow> ''nan''
      | Txt s \<Rightarrow> s
      | Num q \<Rightarrow> num_str q
      | Infty b \<Rightarrow> (if b then ''inf'' else ''-inf''))"

text \<open>The choice of the required columns by kind, the same in both functions.\<close>

definition required_cols_of :: "string \<Rightarrow> error + string list" where
  "required_cols_of kind =
     (if kind = ''singole'' then Inr REQUIRED_COLUMNS_SINGOLE
      else if kind = ''multiple'' then Inr REQUIRED_COLUMNS_MULTIPLE
      else Inl ValueError)"

text \<open>
  \<open>_write_generic\<close> returns the values it hands to \<open>ws.update("A1", values)\<close>, and
  \<open>_load_generic\<close> takes the values \<open>ws.get_all_values()\<close> returns. The worksheet
  itself is the external collaborator and is not modelled; a round trip feeds the
  written values back unchanged.
\<close>

definition write_generic ::
  "(string \<Rightarrow> reading) \<Rightarrow> (rat \<Rightarrow> string) \<Rightarrow> string \<Rightarrow> dataframe \<Rightarrow> string \<Rightarrow>
     error + string list list" where
  "write_generic to_num num_str today df kind =
     bind_err (required_cols_of kind) (\<lambda>required_cols.
     bind_err (normalize to_num today df required_cols kind) (\<lambda>df.
     Inr (required_cols #
            map (\<lambda>r. map (\<lambda>c. astype_str num_str (cell_of r c)) (columns df)) (rows df))))"

definition load_generic ::
  "(string \<Rightarrow> reading) \<Rightarrow> string \<Rightarrow> string list list \<Rightarrow> string \<Rightarrow> error + dataframe" where
  "load_generic to_num today vals kind =
     bind_err (required_cols_of kind) (\<lambda>required_cols.
       if vals = [] \<or> length vals = 1 then Inr (new_frame required_cols)
       else bind_err (DataFrame (tl vals) (hd vals)) (\<lambda>df.
              normalize to_num today df required_cols kind))"

definition round_trip ::
  "(string \<Rightarrow> reading) \<Rightarrow> (rat \<Rightarrow> string) \<Rightarrow> string \<Rightarrow> string \<Rightarrow> dataframe \<Rightarrow> string \<Rightarrow>
     error + dataframe" where
  "round_trip to_num num_str written read df kind =
     bind_err (write_generic to_num num_str written df kind) (\<lambda>vals.
     load_generic to_num read vals kind)"

text \<open>Normalising the result of a normalisation, as a save after a load does.\<close>

definition normalize_twice ::
  "(string \<Rightarrow> reading) \<Rightarrow> string \<Rightarrow> dataframe \<Rightarrow> string list \<Rightarrow> string \<Rightarrow> error + dataframe"
where
  "normalize_twice to_num today df required_cols kind =
     bind_err (normalize to_num today df required_cols kind) (\<lambda>df.
     normalize to_num today df required_cols kind)"

definition id_column :: "error + dataframe \<Rightarrow> error + cell list" where
  "id_column res = (case res of Inl e \<Rightarrow> Inl e | Inr df \<Rightarrow> Inr (col ''ID'' df))"

section \<open>The row-wise view of the column operations\<close>

text \<open>
  Every step of \<open>_normalize\<close> before the identifiers works on one column, cell by cell,
  so the frame it builds is the input with one function applied to each row. The
  definitions below name that function and the list of identifiers \<open>_ensure_ids\<close>
  computes within the exact range; the lemmas of the next sections prove that the
  program computes them.
\<close>

definition upd :: "string \<Rightarrow> (cell \<Rightarrow> cell) \<Rightarrow> row \<Rightarrow> row" where
  "upd c f r = r(c \<mapsto> f (cell_of r c))"

definition map_rows :: "(row \<Rightarrow> row) \<Rightarrow> dataframe \<Rightarrow> dataframe" where
  "map_rows g df = df\<lparr>rows := map g (rows df)\<rparr>"

fun fill_row :: "string list \<Rightarrow> string list \<Rightarrow> row \<Rightarrow> row" where
  "fill_row [] cols r = r"
| "fill_row (c # cs) cols r =
     (if c \<notin> set cols then fill_row cs (cols @ [c]) (r(c \<mapsto> Txt [])) else fill_row cs cols r)"

definition common_row :: "string \<Rightarrow> row \<Rightarrow> row" where
  "common_row today =
     upd ''Note'' (fillna (Txt [])) \<circ>
     upd ''Data'' (\<lambda>v. if blank_cell v then Txt today else v) \<circ>
     upd ''Data'' (fillna (Txt [])) \<circ>
     upd ''Esito'' (\<lambda>v. if isin v OUTCOMES then v else Txt ''In attesa'') \<circ>
     upd ''Esito'' (replace_val [] ''In attesa'' \<circ> fillna (Txt []))"

definition singole_row :: "(string \<Rightarrow> reading) \<Rightarrow> row \<Rightarrow> row" where
  "singole_row to_num =
     upd ''Mercato'' (fillna (Txt [])) \<circ>
     upd ''Partita'' (fillna (Txt [])) \<circ>
     upd ''Campionato'' (\<lambda>v. if isin v LEAGUES then v else Txt ''Altro'') \<circ>
     upd ''Campionato'' (fillna (Txt ''Altro'')) \<circ>
     upd ''Quota'' (to_numeric to_num)"

definition multiple_row :: "(string \<Rightarrow> reading) \<Rightarrow> row \<Rightarrow> row" where
  "multiple_row to_num =
     upd ''Multipla'' (fillna (Txt [])) \<circ>
     upd ''Stake'' (fillna (Num 0) \<circ> to_numeric to_num) \<circ>
     upd ''Quota Totale'' (to_numeric to_num)"

definition kind_row :: "(string \<Rightarrow> reading) \<Rightarrow> string \<Rightarrow> row \<Rightarrow> row" where
  "kind_row to_num kind = (if kind = ''singole'' then singole_row to_num else multiple_row to_num)"

text \<open>The two calls the program makes: each kind with its own required columns.\<close>

definition valid_call :: "string list \<Rightarrow> string \<Rightarrow> bool" where
  "valid_call required_cols kind =
     (kind = ''singole'' \<and> required_cols = REQUIRED_COLUMNS_SINGOLE \<or>
      kind = ''multiple'' \<and> required_cols = REQUIRED_COLUMNS_MULTIPLE)"

definition select_row :: "string list \<Rightarrow> row \<Rightarrow> row" where
  "select_row cols r = (\<lambda>c. if c \<in> set cols then Some (cell_of r c) else None)"

text \<open>
  The rows of the input once the absent required columns are inserted, and their
  identifiers as line 72 reads them.
\<close>

definition input_rows :: "string list \<Rightarrow> dataframe \<Rightarrow> row list" where
  "input_rows required_cols df = rows (ensure_columns required_cols df)"

definition id_num :: "(string \<Rightarrow> reading) \<Rightarrow> string list \<Rightarrow> dataframe \<Rightarrow> cell list" where
  "id_num to_num required_cols df =
     map (\<lambda>r. to_numeric to_num (cell_of r ''ID'')) (input_rows required_cols df)"

definition coerced_rows ::
  "(string \<Rightarrow> reading) \<Rightarrow> string \<Rightarrow> dataframe \<Rightarrow> string list \<Rightarrow> string \<Rightarrow> row list" where
  "coerced_rows to_num today df required_cols kind =
     map (kind_row to_num kind \<circ> common_row today) (input_rows required_cols df)"

text \<open>A cell of a numeric column, and one that is a finite number or missing.\<close>

definition not_text :: "cell \<Rightarrow> bool" where
  "not_text v = (case v of Txt s \<Rightarrow> False | _ \<Rightarrow> True)"

definition num_or_null :: "cell \<Rightarrow> bool" where
  "num_or_null v = (case v of Null \<Rightarrow> True | Num q \<Rightarrow> True | _ \<Rightarrow> False)"

fun assign_from :: "int \<Rightarrow> cell list \<Rightarrow> cell list" where
  "assign_from a [] = []"
| "assign_from a (v # vs) =
     (if isna v then Num (of_int a) # assign_from (a + 1) vs else v # assign_from a vs)"

definition next_id :: "cell list \<Rightarrow> int" where
  "next_id ids =
     (if notna_values ids \<noteq> [] then py_int (Max (set (notna_values ids))) else 0) + 1"

text \<open>
  The identifiers \<open>_ensure_ids\<close> is followed on: two rows carry the same one, or none is
  infinite and all, the new ones included, are within the exact range.
\<close>

definition exact_ids :: "cell list \<Rightarrow> bool" where
  "exact_ids ids =
     (list_all num_or_null ids \<and>
      exact_range ids (next_id ids - 1) (length (filter isna ids)))"

definition followed_ids :: "cell list \<Rightarrow> bool" where
  "followed_ids ids = (if distinct (notna ids) then exact_ids ids else True)"

definition final_ids :: "cell list \<Rightarrow> cell list" where
  "final_ids ids =
     (if \<not> distinct (notna ids) then range_cells 1 (length ids)
      else map trunc_cell (assign_from (next_id ids) ids))"

fun int_assign :: "int \<Rightarrow> cell list \<Rightarrow> int list" where
  "int_assign a [] = []"
| "int_assign a (Num q # vs) = py_int q # int_assign a vs"
| "int_assign a (v # vs) = a # int_assign (a + 1) vs"

definition int_ids :: "cell list \<Rightarrow> int list" where
  "int_ids ids =
     (if \<not> distinct (notna_values ids) then map (\<lambda>k. 1 + int k) [0..<length ids]
      else int_assign (next_id ids) ids)"

definition is_whole :: "rat \<Rightarrow> bool" where
  "is_whole q = (of_int (py_int q) = q)"

text \<open>
  The rows of the frame at the end of line 115, in the order of the input, cut to the
  required columns: row \<open>i\<close> of the input, coerced, with its identifier.
\<close>

definition numbered_rows ::
  "(string \<Rightarrow> reading) \<Rightarrow> string \<Rightarrow> dataframe \<Rightarrow> string list \<Rightarrow> string \<Rightarrow> row list" where
  "numbered_rows to_num today df required_cols kind =
     map2 (\<lambda>r v. select_row required_cols (r(''ID'' \<mapsto> v)))
       (coerced_rows to_num today df required_cols kind)
       (final_ids (id_num to_num required_cols df))"

section \<open>Concrete readers, printers and worksheets for the examples\<close>

text \<open>
  A reader of plain decimals (an optional minus sign, digits, an optional point and
  digits) and of the texts \<open>inf\<close> and \<open>-inf\<close>, and a printer of whole numbers. They
  stand for \<open>pd.to_numeric\<close> and \<open>str\<close> in the examples only. The reader gives the
  number a text denotes, where pandas holds the nearest \<open>float64\<close>; on the texts of the
  examples the two have the same integer part and compare the same way, and the whole
  numbers are the same.
\<close>

definition digit_val :: "char \<Rightarrow> nat option" where
  "digit_val c =
     (let n = (of_char c :: nat) in if 48 \<le> n \<and> n \<le> 57 then Some (n - 48) else None)"

fun digits_val :: "nat \<Rightarrow> string \<Rightarrow> nat option" where
  "digits_val acc [] = Some acc"
| "digits_val acc (c # cs) =
     (case digit_val c of None \<Rightarrow> None | Some d \<Rightarrow> digits_val (10 * acc + d) cs)"

definition unsigned_decimal :: "string \<Rightarrow> rat option" where
  "unsigned_decimal s =
     (let ip = takeWhile (\<lambda>c. c \<noteq> CHR ''.'') s; rest = dropWhile (\<lambda>c. c \<noteq> CHR ''.'') s in
      if ip = [] then None
      else case digits_val 0 ip of
        None \<Rightarrow> None
      | Some a \<Rightarrow>
          (case rest of
             [] \<Rightarrow> Some (of_nat a)
           | dot # fp \<Rightarrow>
               if fp = [] then None
               else case digits_val 0 fp of
                 None \<Rightarrow> None
               | Some b \<Rightarrow> Some (of_nat a + of_nat b / 10 ^ length fp)))"

definition signed_decimal :: "string \<Rightarrow> rat option" where
  "signed_decimal s =
     (case s of
        [] \<Rightarrow> None
      | c # t \<Rightarrow>
          if c = CHR ''-'' then map_option uminus (unsigned_decimal t) else unsigned_decimal s)"

definition plain_decimal :: "string \<Rightarrow> reading" where
  "plain_decimal s =
     (if s = ''inf'' then Infinite True
      else if s = ''-inf'' then Infinite False
      else case signed_decimal s of None \<Rightarrow> Unread | Some q \<Rightarrow> Finite q)"

text \<open>The decimal digits of a natural number; \<open>n + 1\<close> steps are enough for \<open>n\<close>.\<close>

fun nat_digits :: "nat \<Rightarrow> nat \<Rightarrow> string" where
  "nat_digits 0 n = []"
| "nat_digits (Suc fuel) n =
     (if n < 10 then [''0123456789'' ! n]
      else nat_digits fuel (n div 10) @ [''0123456789'' ! (n mod 10)])"

definition nat_text :: "nat \<Rightarrow> string" where
  "nat_text n = nat_digits (Suc n) n"

definition whole_text :: "rat \<Rightarrow> string" where
  "whole_text q =
     (if py_int q < 0 then CHR ''-'' # nat_text (nat (- py_int q)) else nat_text (nat (py_int q)))"

definition cell_key :: "cell \<Rightarrow> rat" where
  "cell_key v = (case v of Num q \<Rightarrow> q | _ \<Rightarrow> 0)"

text \<open>The largest identifier the input holds, or 0 when it holds none.\<close>

definition max_existing :: "cell list \<Rightarrow> rat" where
  "max_existing ids = (if notna_values ids = [] then 0 else Max (set (notna_values ids)))"



text \<open>What a numeric cell reads as once it is written as text and read back.\<close>

definition reread :: "(string \<Rightarrow> reading) \<Rightarrow> (rat \<Rightarrow> string) \<Rightarrow> cell \<Rightarrow> cell" where
  "reread to_num num_str v = to_numeric to_num (Txt (astype_str num_str v))"

text \<open>
  A table in canonical form, the shape \<open>_normalize\<close> produces: the required columns
  and no others, every field of the kind coerced, every date filled in, and the
  identifiers whole numbers in strictly ascending order, none larger than \<open>2^53\<close> in
  magnitude.
\<close>

definition whole_cell :: "cell \<Rightarrow> bool" where
  "whole_cell v = (case v of Num q \<Rightarrow> is_whole q \<and> \<bar>q\<bar> \<le> 2 ^ 53 | _ \<Rightarrow> False)"

definition canonical_row :: "string list \<Rightarrow> string \<Rightarrow> row \<Rightarrow> bool" where
  "canonical_row required_cols kind r =
     (dom r = set required_cols \<and>
      whole_cell (cell_of r ''ID'') \<and>
      isin (cell_of r ''Esito'') OUTCOMES \<and>
      cell_of r ''Data'' \<noteq> Null \<and> \<not> blank_cell (cell_of r ''Data'') \<and>
      cell_of r ''Note'' \<noteq> Null \<and>
      (if kind = ''singole''
       then not_text (cell_of r ''Quota'') \<and> isin (cell_of r ''Campionato'') LEAGUES \<and>
            cell_of r ''Partita'' \<noteq> Null \<and> cell_of r ''Mercato'' \<noteq> Null
       else not_text (cell_of r ''Quota Totale'') \<and>
            not_text (cell_of r ''Stake'') \<and> cell_of r ''Stake'' \<noteq> Null \<and>
            cell_of r ''Multipla'' \<noteq> Null))"

definition canonical :: "string list \<Rightarrow> string \<Rightarrow> dataframe \<Rightarrow> bool" where
  "canonical required_cols kind df =
     (columns df = required_cols \<and>
      list_all (canonical_row required_cols kind) (rows df) \<and>
      sorted_wrt (<) (map (num_key ''ID'') (rows df)))"

text \<open>
  Worksheets of single wagers as \<open>get_all_values\<close> returns them, all cells texts: one
  with a repeated identifier, one with identifiers to fill in, one with fractional
  identifiers, one with a fractional identifier and a blank one, one with identifier 0,
  one with the identifier \<open>inf\<close>; and a worksheet of combination wagers.
\<close>

definition sheet_dup :: dataframe where
  "sheet_dup = frame_of REQUIRED_COLUMNS_SINGOLE
     [[''7'', ''2024-05-01'', ''Serie A'', ''Juve - Napoli'', ''MG 1-3'', ''1.80'', ''Vinta'', ''''],
      ['''', '''', ''Serie Z'', ''Inter - Roma'', ''Over 1.5'', ''abc'', ''boh'', ''''],
      [''7'', ''2024-05-03'', ''Liga'', ''a'', ''b'', ''2.5'', ''Persa'', ''n'']]"

definition sheet_gap :: dataframe where
  "sheet_gap = frame_of REQUIRED_COLUMNS_SINGOLE
     [[''5'', ''2024-05-01'', ''Serie A'', ''a'', ''b'', ''1.80'', ''Vinta'', ''''],
      ['''', ''2024-05-02'', ''Serie A'', ''c'', ''d'', ''1.50'', ''Persa'', ''''],
      [''2'', ''2024-05-03'', ''Liga'', ''e'', ''f'', ''2.5'', ''Persa'', ''''],
      [''x'', ''2024-05-04'', ''Liga'', ''g'', ''h'', ''2.5'', ''Vinta'', '''']]"

definition sheet_frac :: dataframe where
  "sheet_frac = frame_of REQUIRED_COLUMNS_SINGOLE
     [[''1.2'', ''2024-05-01'', ''Serie A'', ''a'', ''b'', ''x'', ''Vinta'', ''''],
      [''1.7'', ''2024-05-02'', ''Liga'', ''c'', ''d'', ''y'', ''Persa'', '''']]"

definition sheet_half :: dataframe where
  "sheet_half = frame_of REQUIRED_COLUMNS_SINGOLE
     [[''1.5'', ''2024-05-01'', ''Serie A'', ''a'', ''b'', ''1.80'', ''Vinta'', ''''],
      ['''', ''2024-05-02'', ''Liga'', ''c'', ''d'', ''2.5'', ''Persa'', '''']]"

definition sheet_zero :: dataframe where
  "sheet_zero = frame_of REQUIRED_COLUMNS_SINGOLE
     [[''0'', ''2024-05-01'', ''Serie A'', ''a'', ''b'', ''1.80'', ''Vinta'', '''']]"

definition sheet_inf :: dataframe where
  "sheet_inf = frame_of REQUIRED_COLUMNS_SINGOLE
     [[''inf'', ''2024-05-01'', ''Serie A'', ''a'', ''b'', ''1.80'', ''Vinta'', '''']]"

definition sheet_multiple :: dataframe where
  "sheet_multiple = frame_of REQUIRED_COLUMNS_MULTIPLE
     [[''1'', ''2024-05-01'', ''legs'', ''2.5'', ''10'', ''Vinta'', ''''],
      [''2'', ''2024-05-02'', ''legs'', ''n/a'', ''ten'', ''Persa'', '''']]"

section \<open>Lemmas: frames and column operations\<close>

lemma columns_map_rows [simp]: "columns (map_rows g df) = columns df"
  by (simp add: map_rows_def)

lemma rows_map_rows [simp]: "rows (map_rows g df) = map g (rows df)"
  by (simp add: map_rows_def)

lemma map_rows_comp: "map_rows g (map_rows h df) = map_rows (g \<circ> h) df"
  by (simp add: map_rows_def)

lemma map2_upd:
  "map2 (\<lambda>r v. r(c \<mapsto> v)) rs (map (\<lambda>r. f (cell_of r c)) rs) = map (upd c f) rs"
  by (induction rs) (simp_all add: upd_def)

lemma apply_col_present:
  "c \<in> set (columns df) \<Longrightarrow> apply_col c f df = Inr (map_rows (upd c f) df)"
  by (simp add: apply_col_def set_col_def col_def comp_def map2_upd map_rows_def)

lemma cell_of_fun_upd_same [simp]: "cell_of (r(c \<mapsto> v)) c = v"
  by (simp add: cell_of_def)

lemma cell_of_fun_upd_other: "c \<noteq> c' \<Longrightarrow> cell_of (r(c \<mapsto> v)) c' = cell_of r c'"
  by (simp add: cell_of_def)

lemma cell_of_upd_other: "c \<noteq> c' \<Longrightarrow> cell_of (upd c f r) c' = cell_of r c'"
  by (simp add: upd_def cell_of_def)

lemma cell_of_upd_same: "cell_of (upd c f r) c = f (cell_of r c)"
  by (simp add: upd_def cell_of_def)

lemma cell_of_select_row: "c \<in> set cols \<Longrightarrow> cell_of (select_row cols r) c = cell_of r c"
  by (simp add: select_row_def cell_of_def)

lemma dom_select_row [simp]: "dom (select_row cols r) = set cols"
  by (auto simp: select_row_def dom_def)

lemma fill_row_Nil [simp]: "fill_row [] cols = (\<lambda>r. r)"
  by (rule ext) simp

lemma rows_ensure_columns:
  "rows (ensure_columns cs df) = map (fill_row cs (columns df)) (rows df)"
  by (induction cs arbitrary: df) (simp_all add: add_column_def)

lemma length_input_rows [simp]: "length (input_rows required_cols df) = length (rows df)"
  by (simp add: input_rows_def rows_ensure_columns)

lemma columns_ensure_columns_mono: "set (columns df) \<subseteq> set (columns (ensure_columns cs df))"
proof (induction cs arbitrary: df)
  case Nil
  show ?case by simp
next
  case (Cons c cs)
  have "set (columns df)
          \<subseteq> set (columns (if c \<notin> set (columns df) then add_column c (Txt []) df else df))"
    by (auto simp: add_column_def)
  also have "\<dots> \<subseteq> set (columns (ensure_columns (c # cs) df))"
    using Cons.IH by simp
  finally show ?case .
qed

lemma columns_ensure_columns_required: "set cs \<subseteq> set (columns (ensure_columns cs df))"
proof (induction cs arbitrary: df)
  case Nil
  show ?case by simp
next
  case (Cons c cs)
  let ?d = "if c \<notin> set (columns df) then add_column c (Txt []) df else df"
  have "c \<in> set (columns ?d)" by (simp add: add_column_def)
  then have "c \<in> set (columns (ensure_columns cs ?d))"
    using columns_ensure_columns_mono by blast
  moreover have "set cs \<subseteq> set (columns (ensure_columns cs ?d))" by (rule Cons.IH)
  ultimately show ?case by simp
qed

lemma ensure_columns_present: "set cs \<subseteq> set (columns df) \<Longrightarrow> ensure_columns cs df = df"
  by (induction cs arbitrary: df) simp_all

lemma input_rows_present: "set cs \<subseteq> set (columns df) \<Longrightarrow> input_rows cs df = rows df"
  by (simp add: input_rows_def ensure_columns_present)

lemma col_set_col: "length vs = length (rows df) \<Longrightarrow> col c (set_col c vs df) = vs"
proof -
  have "length vs = length rs \<Longrightarrow>
          map (\<lambda>r. cell_of r c) (map2 (\<lambda>r v. r(c \<mapsto> v)) rs vs) = vs" for rs
    by (induction rs vs rule: list_induct2') simp_all
  then show "length vs = length (rows df) \<Longrightarrow> col c (set_col c vs df) = vs"
    by (simp add: col_def set_col_def)
qed

lemma set_col_overwrite:
  assumes "length ws = length (rows df)"
  shows "set_col c vs (set_col c ws df) = set_col c vs df"
proof -
  have "length ws = length rs \<Longrightarrow>
          map2 (\<lambda>r v. r(c \<mapsto> v)) (map2 (\<lambda>r v. r(c \<mapsto> v)) rs ws) vs =
          map2 (\<lambda>r v. r(c \<mapsto> v)) rs vs" for rs
  proof (induction rs ws arbitrary: vs rule: list_induct2')
    case (4 r rs w ws)
    then show ?case by (cases vs) (simp_all add: fun_eq_iff)
  qed simp_all
  with assms show ?thesis by (simp add: set_col_def)
qed

lemma set_col_upd: "set_col c vs (map_rows (upd c f) df) = set_col c vs df"
proof -
  have "map2 (\<lambda>r v. r(c \<mapsto> v)) (map (upd c f) rs) vs = map2 (\<lambda>r v. r(c \<mapsto> v)) rs vs" for rs
  proof (induction rs arbitrary: vs)
    case (Cons r rs)
    then show ?case by (cases vs) (simp_all add: upd_def fun_eq_iff)
  qed simp
  then show ?thesis by (simp add: set_col_def map_rows_def)
qed

lemma col_upd_same: "col c (map_rows (upd c f) df) = map f (col c df)"
  by (simp add: col_def upd_def comp_def)

section \<open>Lemmas: the identifiers \<open>_ensure_ids\<close> computes\<close>

lemma not_text_to_numeric [simp]: "not_text (to_numeric to_num v)"
  by (simp add: not_text_def to_numeric_def split: cell.splits reading.splits)

lemma to_numeric_fixed: "not_text v \<Longrightarrow> to_numeric to_num v = v"
  by (simp add: not_text_def to_numeric_def split: cell.splits)

lemma num_or_null_not_text: "num_or_null v \<Longrightarrow> not_text v"
  by (simp add: num_or_null_def not_text_def split: cell.splits)

lemma is_num_not_text: "is_num v \<Longrightarrow> not_text v"
  by (simp add: is_num_def not_text_def split: cell.splits)

lemma Num_in_notna_values: "q \<in> set (notna_values vs) \<longleftrightarrow> Num q \<in> set vs"
proof (induction vs)
  case Nil
  show ?case by simp
next
  case (Cons v vs)
  then show ?case by (cases v) auto
qed

lemma distinct_notna_values: "distinct (notna vs) \<Longrightarrow> distinct (notna_values vs)"
proof (induction vs)
  case Nil
  show ?case by simp
next
  case (Cons v vs)
  then show ?case
    by (cases v) (auto simp: notna_def isna_def Num_in_notna_values split: if_splits)
qed

lemma notna_finite: "list_all num_or_null vs \<Longrightarrow> notna vs = map Num (notna_values vs)"
proof (induction vs)
  case Nil
  show ?case by (simp add: notna_def)
next
  case (Cons v vs)
  then show ?case by (cases v) (simp_all add: notna_def isna_def num_or_null_def)
qed

lemma distinct_notna_finite:
  "list_all num_or_null vs \<Longrightarrow> distinct (notna vs) = distinct (notna_values vs)"
  by (simp add: notna_finite distinct_map inj_on_def)

lemma final_ids_finite:
  "list_all num_or_null vs \<Longrightarrow>
     final_ids vs =
       (if \<not> distinct (notna_values vs) then range_cells 1 (length vs)
        else map trunc_cell (assign_from (next_id vs) vs))"
  by (simp add: final_ids_def distinct_notna_finite)

lemma final_ids_duplicate:
  "\<not> distinct (notna_values vs) \<Longrightarrow> final_ids vs = range_cells 1 (length vs)"
  using distinct_notna_values [of vs] by (auto simp: final_ids_def)

lemma followed_duplicate: "\<not> distinct (notna_values vs) \<Longrightarrow> followed_ids vs"
  using distinct_notna_values [of vs] by (auto simp: followed_ids_def)

lemma followed_exact: "exact_ids vs \<Longrightarrow> followed_ids vs"
  by (simp add: followed_ids_def)

lemma range_cells_Suc: "range_cells a (Suc n) = Num (of_int a) # range_cells (a + 1) n"
proof -
  have "[0..<Suc n] = 0 # map Suc [0..<n]"
    by (simp add: upt_conv_Cons map_Suc_upt del: upt_Suc)
  then show ?thesis
    by (simp add: range_cells_def comp_def add.assoc del: upt_Suc)
qed

lemma range_cells_0 [simp]: "range_cells a 0 = []"
  by (simp add: range_cells_def)

lemma length_range_cells [simp]: "length (range_cells a n) = n"
  by (simp add: range_cells_def)

lemma nth_range_cells: "i < n \<Longrightarrow> range_cells a n ! i = Num (of_int (a + int i))"
  by (simp add: range_cells_def)

lemma loc_assign_range:
  "loc_assign vs (range_cells a (length (filter isna vs))) = assign_from a vs"
  by (induction vs arbitrary: a) (simp_all add: range_cells_Suc)

lemma length_assign_from [simp]: "length (assign_from a vs) = length vs"
  by (induction vs arbitrary: a) simp_all

lemma is_num_assign_from: "list_all num_or_null vs \<Longrightarrow> list_all is_num (assign_from a vs)"
  by (induction vs arbitrary: a)
     (auto simp: is_num_def num_or_null_def isna_def split: cell.splits)

lemma astype_int_nums:
  "list_all is_num vs \<Longrightarrow> list_all (\<lambda>q. in_int64 (py_int q)) (notna_values vs) \<Longrightarrow>
     astype_int vs = Inr (map trunc_cell vs)"
  by (simp add: astype_int_def)

lemma to_numeric_nums: "list_all is_num vs \<Longrightarrow> map (to_numeric to_num) vs = vs"
  by (induction vs) (auto simp: is_num_def to_numeric_def split: cell.splits)

lemma py_int_of_int [simp]: "py_int (of_int k) = k"
  by (simp add: py_int_def)

lemma py_int_numeral [simp]: "py_int (numeral n) = numeral n" "py_int 0 = 0" "py_int 1 = 1"
  by (simp_all add: py_int_def)

lemma py_int_mono: "q \<le> q' \<Longrightarrow> py_int q \<le> py_int q'"
proof -
  assume le: "q \<le> q'"
  consider "0 \<le> q" | "q < 0" "q' < 0" | "q < 0" "0 \<le> q'" by linarith
  then show ?thesis
  proof cases
    case 1
    with le show ?thesis by (simp add: py_int_def floor_mono)
  next
    case 2
    with le show ?thesis by (simp add: py_int_def ceiling_mono)
  next
    case 3
    then have "\<lceil>q\<rceil> \<le> 0" "0 \<le> \<lfloor>q'\<rfloor>" by (simp_all add: ceiling_le_zero)
    moreover from 3 have "py_int q = \<lceil>q\<rceil>" "py_int q' = \<lfloor>q'\<rfloor>"
      by (simp_all add: py_int_def)
    ultimately show ?thesis by linarith
  qed
qed

lemma py_int_bounded: "\<bar>q\<bar> \<le> of_int b \<Longrightarrow> \<bar>py_int q\<bar> \<le> b"
proof -
  assume "\<bar>q\<bar> \<le> of_int b"
  then have "of_int (- b) \<le> q" "q \<le> of_int b" by simp_all
  then have "py_int (of_int (- b)) \<le> py_int q" "py_int q \<le> py_int (of_int b)"
    by (simp_all only: py_int_mono)
  then have "- b \<le> py_int q" "py_int q \<le> b" by (simp_all only: py_int_of_int)
  then show ?thesis by linarith
qed

lemma in_int64_small: "\<bar>k\<bar> \<le> 2 ^ 53 \<Longrightarrow> in_int64 k"
  unfolding in_int64_def by simp linarith

lemma py_int_small: "\<bar>q\<bar> \<le> 2 ^ 53 \<Longrightarrow> \<bar>py_int q\<bar> \<le> 2 ^ 53"
  using py_int_bounded [of q "2 ^ 53"] by simp

text \<open>Within the exact range every identifier, old or new, is at most \<open>2^53\<close> in magnitude.\<close>

lemma small_assign_from:
  "list_all (\<lambda>q. \<bar>q\<bar> \<le> 2 ^ 53) (notna_values vs) \<Longrightarrow>
   - (2 ^ 53) \<le> a \<Longrightarrow> a + int (length (filter isna vs)) \<le> 2 ^ 53 + 1 \<Longrightarrow>
     list_all (\<lambda>q. \<bar>q\<bar> \<le> 2 ^ 53) (notna_values (assign_from a vs))"
proof (induction vs arbitrary: a)
  case Nil
  show ?case by simp
next
  case (Cons v vs)
  show ?case
  proof (cases v)
    case Null
    with Cons.prems have "list_all (\<lambda>q. \<bar>q\<bar> \<le> 2 ^ 53) (notna_values (assign_from (a + 1) vs))"
      by (intro Cons.IH) (simp_all add: isna_def)
    moreover from Cons.prems Null have "\<bar>a\<bar> \<le> 2 ^ 53" by (simp add: isna_def)
    then have "\<bar>(of_int a :: rat)\<bar> \<le> 2 ^ 53"
      by (metis of_int_abs of_int_le_iff of_int_numeral of_int_power)
    ultimately show ?thesis using Null by (simp add: isna_def)
  next
    case (Txt s)
    with Cons.prems have "list_all (\<lambda>q. \<bar>q\<bar> \<le> 2 ^ 53) (notna_values (assign_from a vs))"
      by (intro Cons.IH) (simp_all add: isna_def)
    with Txt show ?thesis by (simp add: isna_def)
  next
    case (Num q)
    with Cons.prems have "list_all (\<lambda>q. \<bar>q\<bar> \<le> 2 ^ 53) (notna_values (assign_from a vs))"
      by (intro Cons.IH) (simp_all add: isna_def)
    with Num Cons.prems show ?thesis by (simp add: isna_def)
  next
    case (Infty b)
    with Cons.prems have "list_all (\<lambda>q. \<bar>q\<bar> \<le> 2 ^ 53) (notna_values (assign_from a vs))"
      by (intro Cons.IH) (simp_all add: isna_def)
    with Infty show ?thesis by (simp add: isna_def)
  qed
qed

lemma next_id_range:
  assumes "exact_range vs (next_id vs - 1) n"
  shows "- (2 ^ 53) \<le> next_id vs" and "next_id vs + int n \<le> 2 ^ 53 + 1"
  using assms unfolding exact_range_def by simp_all linarith+

lemma small_final_values:
  assumes "exact_ids vs"
  shows "list_all (\<lambda>q. \<bar>q\<bar> \<le> 2 ^ 53) (notna_values (assign_from (next_id vs) vs))"
proof -
  from assms have r: "exact_range vs (next_id vs - 1) (length (filter isna vs))"
    by (simp add: exact_ids_def)
  then have "list_all (\<lambda>q. \<bar>q\<bar> \<le> 2 ^ 53) (notna_values vs)" by (simp add: exact_range_def)
  then show ?thesis using next_id_range [OF r] by (rule small_assign_from)
qed

lemma int64_final_values:
  assumes "exact_ids vs"
  shows "list_all (\<lambda>q. in_int64 (py_int q)) (notna_values (assign_from (next_id vs) vs))"
  using small_final_values [OF assms] py_int_small in_int64_small
  unfolding list_all_iff by blast

lemma max_id_finite:
  assumes "list_all num_or_null vs"
  shows "(if notna vs \<noteq> [] then int_of_cell (col_max vs) else Inr 0) = Inr (next_id vs - 1)"
proof -
  from assms have "Infty True \<notin> set vs" by (auto simp: list_all_iff num_or_null_def)
  moreover have "notna vs \<noteq> [] \<longleftrightarrow> notna_values vs \<noteq> []"
    by (simp add: notna_finite [OF assms])
  ultimately show ?thesis by (simp add: col_max_def int_of_cell_def next_id_def)
qed

lemma assign_from_no_missing: "filter isna vs = [] \<Longrightarrow> assign_from a vs = vs"
  by (induction vs arbitrary: a) (simp_all split: if_splits)

lemma nth_assign_from:
  "i < length vs \<Longrightarrow>
     assign_from a vs ! i =
       (if isna (vs ! i) then Num (of_int (a + int (length (filter isna (take i vs)))))
        else vs ! i)"
proof (induction vs arbitrary: a i)
  case Nil
  then show ?case by simp
next
  case (Cons v vs)
  show ?case
  proof (cases i)
    case 0
    then show ?thesis by simp
  next
    case (Suc j)
    with Cons.prems have "j < length vs" by simp
    then show ?thesis
      using Suc Cons.IH [of j] by (simp add: add.assoc)
  qed
qed

lemma length_final_ids [simp]: "length (final_ids vs) = length vs"
  by (simp add: final_ids_def)

lemma ensure_ids_present:
  assumes "''ID'' \<in> set (columns df)" and "rows df \<noteq> []"
    and "followed_ids (map (to_numeric to_num) (col ''ID'' df))"
  shows "ensure_ids to_num df =
           Inr (set_col ''ID'' (final_ids (map (to_numeric to_num) (col ''ID'' df))) df)"
proof -
  define df1 where "df1 = map_rows (upd ''ID'' (to_numeric to_num)) df"
  define ids where "ids = map (to_numeric to_num) (col ''ID'' df)"
  have ne: "\<not> empty_df df" using assms by (auto simp: empty_df_def)
  have step1: "apply_col ''ID'' (to_numeric to_num) df = Inr df1"
    using assms(1) by (simp add: apply_col_present df1_def)
  have c1: "col ''ID'' df1 = ids" by (simp add: df1_def ids_def col_upd_same)
  have len: "length ids = length (rows df1)" by (simp add: df1_def ids_def col_def)
  have len': "length (rows df1) = length (rows df)" by (simp add: df1_def)
  have over: "set_col ''ID'' vs df1 = set_col ''ID'' vs df" for vs
    by (simp add: df1_def set_col_upd)
  show ?thesis
  proof (cases "distinct (notna ids)")
    case False
    then have "notna ids \<noteq> []" by auto
    with False have "ensure_ids to_num df =
        Inr (set_col ''ID'' (range_cells 1 (length (rows df1))) df1)"
      using ne by (simp add: ensure_ids_def step1 bind_err_def c1 Let_def)
    also have "\<dots> = Inr (set_col ''ID'' (final_ids ids) df)"
      using False len by (simp add: final_ids_def over)
    finally show ?thesis by (simp add: ids_def)
  next
    case True
    with assms(3) have ex: "exact_ids ids" by (simp add: followed_ids_def ids_def)
    then have nn: "list_all num_or_null ids"
      and er: "exact_range ids (next_id ids - 1) (length (filter isna ids))"
      by (simp_all add: exact_ids_def)
    have mx: "(if notna ids \<noteq> [] then int_of_cell (col_max ids) else Inr 0) =
                Inr (next_id ids - 1)"
      using nn by (rule max_id_finite)
    define a where "a = next_id ids"
    define df2 where "df2 =
      (if filter isna ids \<noteq> []
       then set_col ''ID'' (loc_assign ids (range_cells a (length (filter isna ids)))) df1
       else df1)"
    have la: "loc_assign ids (range_cells a (length (filter isna ids))) = assign_from a ids"
      by (rule loc_assign_range)
    have c2: "col ''ID'' df2 = assign_from a ids"
    proof (cases "filter isna ids = []")
      case True
      then show ?thesis by (simp add: df2_def c1 assign_from_no_missing)
    next
      case False
      then show ?thesis using len by (simp add: df2_def la col_set_col)
    qed
    have nums: "list_all is_num (assign_from a ids)" using nn by (rule is_num_assign_from)
    have i64: "list_all (\<lambda>q. in_int64 (py_int q)) (notna_values (assign_from a ids))"
      unfolding a_def using ex by (rule int64_final_values)
    have s2: "set_col ''ID'' vs df2 = set_col ''ID'' vs df" for vs
      using len len' by (simp add: df2_def la set_col_overwrite over)
    have a1: "next_id ids - 1 + 1 = a" by (simp add: a_def)
    have "ensure_ids to_num df =
            bind_err (astype_int (map (to_numeric to_num) (col ''ID'' df2)))
              (\<lambda>ids. Inr (set_col ''ID'' ids df2))"
      unfolding ensure_ids_def df2_def
      using ne True er
      by (simp only: step1 bind_err_def sum.case Let_def c1 mx a1 simp_thms if_False)
    also have "\<dots> = Inr (set_col ''ID'' (map trunc_cell (assign_from a ids)) df)"
      using nums i64
      by (simp only: c2 to_numeric_nums astype_int_nums bind_err_def sum.case s2)
    finally show ?thesis using True by (simp add: final_ids_def a_def ids_def)
  qed
qed

text \<open>
  Whenever \<open>_ensure_ids\<close> returns, it has replaced the identifier column and nothing
  else.
\<close>

lemma ensure_ids_shape:
  assumes "ensure_ids to_num df = Inr e" and "''ID'' \<in> set (columns df)" and "rows df \<noteq> []"
  shows "\<exists>ids. length ids = length (rows df) \<and> e = set_col ''ID'' ids df"
proof -
  define df1 where "df1 = map_rows (upd ''ID'' (to_numeric to_num)) df"
  define ids where "ids = map (to_numeric to_num) (col ''ID'' df)"
  have ne: "\<not> empty_df df" using assms(2,3) by (auto simp: empty_df_def)
  have step1: "apply_col ''ID'' (to_numeric to_num) df = Inr df1"
    using assms(2) by (simp add: apply_col_present df1_def)
  have c1: "col ''ID'' df1 = ids" by (simp add: df1_def ids_def col_upd_same)
  have len: "length ids = length (rows df1)" by (simp add: df1_def ids_def col_def)
  have len': "length (rows df1) = length (rows df)" by (simp add: df1_def)
  have over: "set_col ''ID'' vs df1 = set_col ''ID'' vs df" for vs
    by (simp add: df1_def set_col_upd)
  show ?thesis
  proof (cases "notna ids \<noteq> [] \<and> \<not> distinct (notna ids)")
    case True
    then have "ensure_ids to_num df =
        Inr (set_col ''ID'' (range_cells 1 (length (rows df1))) df1)"
      using ne by (simp add: ensure_ids_def step1 bind_err_def c1 Let_def)
    with assms(1) have "e = set_col ''ID'' (range_cells 1 (length (rows df))) df"
      by (simp add: over len')
    then show ?thesis by (intro exI [of _ "range_cells 1 (length (rows df))"]) simp
  next
    case False
    define m where "m = (if notna ids \<noteq> [] then int_of_cell (col_max ids) else Inr 0)"
    define df2 where "df2 = (\<lambda>a.
      if filter isna ids \<noteq> []
      then set_col ''ID'' (loc_assign ids (range_cells (a + 1) (length (filter isna ids)))) df1
      else df1)"
    have s2: "set_col ''ID'' vs (df2 a) = set_col ''ID'' vs df" for vs a
      using len len' by (simp add: df2_def loc_assign_range set_col_overwrite over)
    have unf: "ensure_ids to_num df =
            bind_err m (\<lambda>a.
              if \<not> exact_range ids a (length (filter isna ids)) then Inl OutsideExactRange
              else bind_err (astype_int (map (to_numeric to_num) (col ''ID'' (df2 a))))
                     (\<lambda>ids. Inr (set_col ''ID'' ids (df2 a))))"
      unfolding ensure_ids_def df2_def m_def
      using ne False
      by (simp only: step1 bind_err_def sum.case Let_def c1 simp_thms if_False)
    from assms(1) obtain a where a: "m = Inr a"
      unfolding unf by (cases m) (simp_all add: bind_err_def)
    from assms(1) obtain ws where
      ws: "astype_int (map (to_numeric to_num) (col ''ID'' (df2 a))) = Inr ws"
      unfolding unf a
      by (cases "astype_int (map (to_numeric to_num) (col ''ID'' (df2 a)))")
         (simp_all add: bind_err_def split: if_splits)
    from assms(1) have e: "e = set_col ''ID'' ws df"
      unfolding unf a by (simp add: bind_err_def ws s2 split: if_splits)
    have "length (col ''ID'' (df2 a)) = length (rows df)"
      using len len' by (simp add: df2_def col_def set_col_def loc_assign_range)
    moreover from ws have "length ws = length (col ''ID'' (df2 a))"
      by (auto simp: astype_int_def split: if_splits)
    ultimately show ?thesis using e by auto
  qed
qed

lemma trunc_assign_from:
  "list_all num_or_null vs \<Longrightarrow>
     map trunc_cell (assign_from a vs) = map (\<lambda>k. Num (of_int k)) (int_assign a vs)"
  by (induction a vs rule: int_assign.induct)
     (simp_all add: isna_def trunc_cell_def num_or_null_def)

lemma set_int_assign:
  "k \<in> set (int_assign a vs) \<Longrightarrow> k \<in> py_int ` set (notna_values vs) \<or> a \<le> k"
  by (induction a vs arbitrary: k rule: int_assign.induct) force+

lemma fresh_int_assign:
  assumes "\<forall>q\<in>set (notna_values vs). py_int q < a"
  shows "a \<notin> set (int_assign (a + 1) vs)"
proof
  assume "a \<in> set (int_assign (a + 1) vs)"
  then have "a \<in> py_int ` set (notna_values vs) \<or> a + 1 \<le> a"
    by (rule set_int_assign)
  with assms show False by auto
qed

lemma distinct_int_assign:
  "distinct (map py_int (notna_values vs)) \<Longrightarrow>
   (\<forall>q\<in>set (notna_values vs). py_int q < a) \<Longrightarrow> distinct (int_assign a vs)"
proof (induction vs arbitrary: a)
  case Nil
  then show ?case by simp
next
  case (Cons v vs)
  show ?case
  proof (cases v)
    case (Num q)
    have "py_int q \<notin> set (int_assign a vs)"
    proof
      assume "py_int q \<in> set (int_assign a vs)"
      then have "py_int q \<in> py_int ` set (notna_values vs) \<or> a \<le> py_int q"
        by (rule set_int_assign)
      with Cons.prems Num show False by auto
    qed
    moreover have "distinct (int_assign a vs)"
      using Cons.prems Num by (intro Cons.IH) simp_all
    ultimately show ?thesis using Num by simp
  next
    case Null
    with Cons.prems have low: "\<forall>q\<in>set (notna_values vs). py_int q < a" by simp
    then have "a \<notin> set (int_assign (a + 1) vs)" by (rule fresh_int_assign)
    moreover have "distinct (int_assign (a + 1) vs)"
      using Cons.prems Null low by (intro Cons.IH) force+
    ultimately show ?thesis using Null by simp
  next
    case (Txt s)
    with Cons.prems have low: "\<forall>q\<in>set (notna_values vs). py_int q < a" by simp
    then have "a \<notin> set (int_assign (a + 1) vs)" by (rule fresh_int_assign)
    moreover have "distinct (int_assign (a + 1) vs)"
      using Cons.prems Txt low by (intro Cons.IH) force+
    ultimately show ?thesis using Txt by simp
  next
    case (Infty b)
    with Cons.prems have low: "\<forall>q\<in>set (notna_values vs). py_int q < a" by simp
    then have "a \<notin> set (int_assign (a + 1) vs)" by (rule fresh_int_assign)
    moreover have "distinct (int_assign (a + 1) vs)"
      using Cons.prems Infty low by (intro Cons.IH) force+
    ultimately show ?thesis using Infty by simp
  qed
qed

lemma below_next_id: "q \<in> set (notna_values vs) \<Longrightarrow> py_int q < next_id vs"
proof -
  assume q: "q \<in> set (notna_values vs)"
  then have "q \<le> Max (set (notna_values vs))" by simp
  then have "py_int q \<le> py_int (Max (set (notna_values vs)))" by (rule py_int_mono)
  with q show ?thesis by (auto simp: next_id_def)
qed

lemma range_cells_ints:
  "range_cells a n = map (\<lambda>k. Num (of_int k)) (map (\<lambda>k. a + int k) [0..<n])"
  by (simp add: range_cells_def)

lemma final_ids_int_ids:
  "list_all num_or_null vs \<Longrightarrow> final_ids vs = map (\<lambda>k. Num (of_int k)) (int_ids vs)"
  by (simp add: final_ids_finite int_ids_def trunc_assign_from range_cells_ints)

lemma distinct_int_ids:
  assumes "distinct (notna_values vs) \<longrightarrow> distinct (map py_int (notna_values vs))"
  shows "distinct (int_ids vs)"
proof (cases "distinct (notna_values vs)")
  case True
  with assms have "distinct (map py_int (notna_values vs))" by simp
  then have "distinct (int_assign (next_id vs) vs)"
    by (rule distinct_int_assign) (simp add: below_next_id)
  with True show ?thesis by (simp add: int_ids_def)
next
  case False
  have "inj_on (\<lambda>k. 1 + int k) (set [0..<length vs])" by (simp add: inj_on_def)
  then show ?thesis using False by (simp add: int_ids_def distinct_map)
qed

lemma next_id_positive: "\<forall>q\<in>set (notna_values vs). 1 \<le> q \<Longrightarrow> 1 \<le> next_id vs"
proof (cases "notna_values vs = []")
  case True
  then show ?thesis by (simp add: next_id_def)
next
  case False
  assume pos: "\<forall>q\<in>set (notna_values vs). 1 \<le> q"
  from False have "Max (set (notna_values vs)) \<in> set (notna_values vs)" by simp
  with pos have "1 \<le> Max (set (notna_values vs))" by blast
  then have "py_int 1 \<le> py_int (Max (set (notna_values vs)))" by (rule py_int_mono)
  then show ?thesis using False by (simp add: next_id_def py_int_def)
qed

lemma positive_int_ids:
  assumes "\<forall>q\<in>set (notna_values vs). 1 \<le> q" and "k \<in> set (int_ids vs)"
  shows "1 \<le> k"
proof (cases "distinct (notna_values vs)")
  case True
  with assms(2) have "k \<in> py_int ` set (notna_values vs) \<or> next_id vs \<le> k"
    by (simp add: int_ids_def set_int_assign)
  then show ?thesis
  proof
    assume "k \<in> py_int ` set (notna_values vs)"
    then obtain q where q: "q \<in> set (notna_values vs)" "k = py_int q" by blast
    with assms(1) have "1 \<le> q" by blast
    then have "py_int 1 \<le> py_int q" by (rule py_int_mono)
    with q show ?thesis by (simp add: py_int_def)
  next
    assume "next_id vs \<le> k"
    with next_id_positive [OF assms(1)] show ?thesis by simp
  qed
next
  case False
  with assms(2) show ?thesis by (auto simp: int_ids_def)
qed

section \<open>Lemmas: what \<open>_normalize\<close> returns\<close>

lemma common_steps:
  assumes "''Esito'' \<in> set (columns df)" "''Data'' \<in> set (columns df)"
    "''Note'' \<in> set (columns df)"
  shows "bind_err (apply_col ''Esito'' (replace_val [] ''In attesa'' \<circ> fillna (Txt [])) df) (\<lambda>df.
     bind_err (apply_col ''Esito''
                 (\<lambda>v. if isin v OUTCOMES then v else Txt ''In attesa'') df) (\<lambda>df.
     bind_err (apply_col ''Data'' (fillna (Txt [])) df) (\<lambda>df.
     bind_err (apply_col ''Data'' (\<lambda>v. if blank_cell v then Txt today else v) df) (\<lambda>df.
     bind_err (apply_col ''Note'' (fillna (Txt [])) df) k))))
    = k (map_rows (common_row today) df)"
  using assms
  by (simp add: apply_col_present bind_err_def map_rows_comp common_row_def comp_assoc)

lemma coerce_singole_present:
  assumes "''Quota'' \<in> set (columns df)" "''Campionato'' \<in> set (columns df)"
    "''Partita'' \<in> set (columns df)" "''Mercato'' \<in> set (columns df)"
  shows "coerce_singole to_num df = Inr (map_rows (singole_row to_num) df)"
  using assms
  by (simp add: coerce_singole_def apply_col_present bind_err_def map_rows_comp singole_row_def
        comp_assoc)

lemma coerce_multiple_present:
  assumes "''Quota Totale'' \<in> set (columns df)" "''Stake'' \<in> set (columns df)"
    "''Multipla'' \<in> set (columns df)"
  shows "coerce_multiple to_num df = Inr (map_rows (multiple_row to_num) df)"
  using assms
  by (simp add: coerce_multiple_def apply_col_present bind_err_def map_rows_comp multiple_row_def
        comp_assoc)

lemma ID_common_row: "cell_of (common_row today r) ''ID'' = cell_of r ''ID''"
  by (simp add: common_row_def cell_of_upd_other)

lemma ID_kind_row: "cell_of (kind_row to_num kind r) ''ID'' = cell_of r ''ID''"
  by (simp add: kind_row_def singole_row_def multiple_row_def cell_of_upd_other)

lemma valid_call_ID: "valid_call required_cols kind \<Longrightarrow> ''ID'' \<in> set required_cols"
  by (auto simp: valid_call_def REQUIRED_COLUMNS_SINGOLE_def REQUIRED_COLUMNS_MULTIPLE_def)

lemma valid_call_Esito: "valid_call required_cols kind \<Longrightarrow> ''Esito'' \<in> set required_cols"
  by (auto simp: valid_call_def REQUIRED_COLUMNS_SINGOLE_def REQUIRED_COLUMNS_MULTIPLE_def)

lemma coerce_fields_valid:
  assumes "valid_call required_cols kind"
  shows "coerce_fields to_num today df required_cols kind =
           Inr (map_rows (kind_row to_num kind \<circ> common_row today)
                  (ensure_columns required_cols df))"
proof -
  define df0 where "df0 = ensure_columns required_cols df"
  define df1 where "df1 = map_rows (common_row today) df0"
  define df2 where "df2 = map_rows (kind_row to_num kind) df1"
  have req: "set required_cols \<subseteq> set (columns df0)"
    unfolding df0_def by (rule columns_ensure_columns_required)
  have common: "''Esito'' \<in> set required_cols" "''Data'' \<in> set required_cols"
    "''Note'' \<in> set required_cols" "''ID'' \<in> set required_cols"
    using assms(1)
    by (auto simp: valid_call_def REQUIRED_COLUMNS_SINGOLE_def REQUIRED_COLUMNS_MULTIPLE_def)
  have kind_step: "(if kind = ''singole'' then coerce_singole to_num df1
               else if kind = ''multiple'' then coerce_multiple to_num df1
               else Inl ValueError) = Inr df2"
  proof (cases "kind = ''singole''")
    case True
    with assms(1) have "required_cols = REQUIRED_COLUMNS_SINGOLE" by (simp add: valid_call_def)
    with req have "''Quota'' \<in> set (columns df1)" "''Campionato'' \<in> set (columns df1)"
      "''Partita'' \<in> set (columns df1)" "''Mercato'' \<in> set (columns df1)"
      by (auto simp: REQUIRED_COLUMNS_SINGOLE_def df1_def)
    then show ?thesis using True
      by (simp add: coerce_singole_present df2_def kind_row_def)
  next
    case False
    with assms(1) have k: "kind = ''multiple''" "required_cols = REQUIRED_COLUMNS_MULTIPLE"
      by (simp_all add: valid_call_def)
    with req have "''Quota Totale'' \<in> set (columns df1)" "''Stake'' \<in> set (columns df1)"
      "''Multipla'' \<in> set (columns df1)"
      by (auto simp: REQUIRED_COLUMNS_MULTIPLE_def df1_def)
    then show ?thesis using k
      by (simp add: coerce_multiple_present df2_def kind_row_def)
  qed
  have "coerce_fields to_num today df required_cols kind =
          (if kind = ''singole'' then coerce_singole to_num df1
               else if kind = ''multiple'' then coerce_multiple to_num df1
               else Inl ValueError)"
    unfolding coerce_fields_def df1_def df0_def [symmetric]
    using req common by (subst common_steps) auto
  also have "\<dots> = Inr df2" by (rule kind_step)
  finally show ?thesis
    by (simp add: df2_def df1_def df0_def map_rows_comp)
qed

lemma id_num_coerced:
  "map (to_numeric to_num)
     (col ''ID'' (map_rows (kind_row to_num kind \<circ> common_row today)
                    (ensure_columns required_cols df))) =
   id_num to_num required_cols df"
  by (simp add: col_def ID_kind_row ID_common_row id_num_def input_rows_def comp_def)

lemma rows_coerced:
  "rows (map_rows (kind_row to_num kind \<circ> common_row today) (ensure_columns required_cols df)) =
     coerced_rows to_num today df required_cols kind"
  by (simp add: coerced_rows_def input_rows_def)

lemma columns_coerced:
  "set required_cols \<subseteq>
     set (columns (map_rows (kind_row to_num kind \<circ> common_row today)
                     (ensure_columns required_cols df)))"
  using columns_ensure_columns_required [of required_cols df] by simp

lemma length_id_num [simp]: "length (id_num to_num required_cols df) = length (rows df)"
  by (simp add: id_num_def)

lemma not_text_id_num: "list_all not_text (id_num to_num required_cols df)"
  by (simp add: id_num_def list_all_iff)

lemma exact_num_or_null: "exact_ids vs \<Longrightarrow> list_all num_or_null vs"
  by (simp add: exact_ids_def)

lemma length_coerced_rows [simp]:
  "length (coerced_rows to_num today df required_cols kind) = length (rows df)"
  by (simp add: coerced_rows_def)

lemma length_numbered_rows [simp]:
  "length (numbered_rows to_num today df required_cols kind) = length (rows df)"
  by (simp add: numbered_rows_def)

lemma nth_coerced_rows:
  "i < length (rows df) \<Longrightarrow>
     coerced_rows to_num today df required_cols kind ! i =
       (kind_row to_num kind \<circ> common_row today) (input_rows required_cols df ! i)"
  by (simp add: coerced_rows_def)

lemma nth_numbered_rows:
  "i < length (rows df) \<Longrightarrow>
     numbered_rows to_num today df required_cols kind ! i =
       select_row required_cols
         ((coerced_rows to_num today df required_cols kind ! i)
            (''ID'' \<mapsto> final_ids (id_num to_num required_cols df) ! i))"
  by (simp add: numbered_rows_def)

lemma normalize_empty:
  "empty_df df \<Longrightarrow> normalize to_num today df required_cols kind = Inr (new_frame required_cols)"
  by (simp add: normalize_def)

lemma select_numbered:
  assumes "length ids = length rs"
  shows "map (\<lambda>r c. if c \<in> set cols then Some (cell_of r c) else None)
           (map2 (\<lambda>r v. r(''ID'' \<mapsto> v)) rs ids) =
         map2 (\<lambda>r v. select_row cols (r(''ID'' \<mapsto> v))) rs ids"
  by (simp add: select_row_def map_zip_map2 comp_def case_prod_unfold)

lemma normalize_valid:
  assumes "valid_call required_cols kind" and "\<not> empty_df df"
    and "followed_ids (id_num to_num required_cols df)"
  shows "normalize to_num today df required_cols kind =
           Inr \<lparr>columns = required_cols,
                rows = sort_key (num_key ''ID'')
                         (numbered_rows to_num today df required_cols kind)\<rparr>"
proof -
  define ids where "ids = final_ids (id_num to_num required_cols df)"
  define cs where "cs = coerced_rows to_num today df required_cols kind"
  define c where "c = map_rows (kind_row to_num kind \<circ> common_row today)
                        (ensure_columns required_cols df)"
  define d where "d = set_col ''ID'' ids c"
  have ne: "rows df \<noteq> []" using assms(2) by (simp add: empty_df_def)
  have step: "coerce_fields to_num today df required_cols kind = Inr c"
    using assms(1) by (simp add: coerce_fields_valid c_def)
  have ccols: "set required_cols \<subseteq> set (columns c)"
    unfolding c_def by (rule columns_coerced)
  have crows: "rows c = cs" unfolding c_def cs_def by (rule rows_coerced)
  have cids: "map (to_numeric to_num) (col ''ID'' c) = id_num to_num required_cols df"
    unfolding c_def by (rule id_num_coerced)
  have "ensure_ids to_num c =
          Inr (set_col ''ID'' (final_ids (map (to_numeric to_num) (col ''ID'' c))) c)"
  proof (rule ensure_ids_present)
    show "''ID'' \<in> set (columns c)" using ccols valid_call_ID [OF assms(1)] by auto
    have "length (rows c) = length (rows df)" by (simp add: crows cs_def)
    with ne show "rows c \<noteq> []" by (metis length_0_conv)
    show "followed_ids (map (to_numeric to_num) (col ''ID'' c))"
      unfolding cids by (rule assms(3))
  qed
  then have step2: "ensure_ids to_num c = Inr d"
    by (simp only: cids d_def ids_def)
  have cols: "set required_cols \<subseteq> set (columns d)"
    using ccols by (simp add: d_def set_col_def)
  have rws: "rows d = map2 (\<lambda>r v. r(''ID'' \<mapsto> v)) cs ids"
    by (simp add: d_def set_col_def crows)
  have sel: "map (\<lambda>r c. if c \<in> set required_cols then Some (cell_of r c) else None) (rows d) =
             numbered_rows to_num today df required_cols kind"
    unfolding rws numbered_rows_def cs_def [symmetric] ids_def [symmetric]
    by (simp add: select_row_def map_zip_map2 comp_def case_prod_unfold)
  have "select_cols required_cols d =
          Inr \<lparr>columns = required_cols, rows = numbered_rows to_num today df required_cols kind\<rparr>"
    using cols by (simp add: select_cols_def sel)
  then show ?thesis
    using assms valid_call_ID [OF assms(1)]
    by (simp add: normalize_def step step2 bind_err_def sort_values_def)
qed

lemma cell_of_numbered_row:
  assumes "i < length (rows df)" and "c \<in> set required_cols" and "c \<noteq> ''ID''"
  shows "cell_of (numbered_rows to_num today df required_cols kind ! i) c =
           cell_of ((kind_row to_num kind \<circ> common_row today)
                      (input_rows required_cols df ! i)) c"
  using assms
  by (simp add: nth_numbered_rows cell_of_select_row nth_coerced_rows cell_of_fun_upd_other
        del: o_apply)

lemma ID_of_numbered_row:
  assumes "i < length (rows df)" and "''ID'' \<in> set required_cols"
  shows "cell_of (numbered_rows to_num today df required_cols kind ! i) ''ID'' =
           final_ids (id_num to_num required_cols df) ! i"
  using assms by (simp add: nth_numbered_rows cell_of_select_row)

lemma Esito_coerced:
  "cell_of ((kind_row to_num kind \<circ> common_row today) r) ''Esito'' =
     (if isin (cell_of r ''Esito'') OUTCOMES then cell_of r ''Esito'' else Txt ''In attesa'')"
  by (simp add: kind_row_def singole_row_def multiple_row_def common_row_def
        cell_of_upd_other cell_of_upd_same isin_def replace_val_def fillna_def OUTCOMES_def
      split: cell.splits)

lemma Campionato_coerced:
  "cell_of ((kind_row to_num ''singole'' \<circ> common_row today) r) ''Campionato'' =
     (if isin (cell_of r ''Campionato'') LEAGUES then cell_of r ''Campionato'' else Txt ''Altro'')"
  by (simp add: kind_row_def singole_row_def common_row_def
        cell_of_upd_other cell_of_upd_same isin_def fillna_def LEAGUES_def
      split: cell.splits)

lemma Quota_coerced:
  "cell_of ((kind_row to_num ''singole'' \<circ> common_row today) r) ''Quota'' =
     to_numeric to_num (cell_of r ''Quota'')"
  by (simp add: kind_row_def singole_row_def common_row_def cell_of_upd_other cell_of_upd_same)

lemma Quota_Totale_coerced:
  "cell_of ((kind_row to_num ''multiple'' \<circ> common_row today) r) ''Quota Totale'' =
     to_numeric to_num (cell_of r ''Quota Totale'')"
  by (simp add: kind_row_def multiple_row_def common_row_def cell_of_upd_other cell_of_upd_same)

lemma Stake_coerced:
  "cell_of ((kind_row to_num ''multiple'' \<circ> common_row today) r) ''Stake'' =
     fillna (Num 0) (to_numeric to_num (cell_of r ''Stake''))"
  by (simp add: kind_row_def multiple_row_def common_row_def cell_of_upd_other cell_of_upd_same)

section \<open>Lemmas: the identifier column of the result\<close>

lemma num_key_cell_key: "num_key c r = cell_key (cell_of r c)"
  by (simp add: num_key_def cell_key_def)

lemma map_insort_key:
  "map g (insort_key (\<lambda>x. f (g x)) x xs) = insort_key f (g x) (map g xs)"
  by (induction xs) simp_all

lemma map_sort_key: "map g (sort_key (\<lambda>x. f (g x)) xs) = sort_key f (map g xs)"
  by (induction xs) (simp_all add: map_insort_key)

lemma ID_numbered_rows:
  assumes "''ID'' \<in> set required_cols"
  shows "map (\<lambda>r. cell_of r ''ID'') (numbered_rows to_num today df required_cols kind) =
           final_ids (id_num to_num required_cols df)"
proof (rule nth_equalityI)
  show "length (map (\<lambda>r. cell_of r ''ID'') (numbered_rows to_num today df required_cols kind)) =
          length (final_ids (id_num to_num required_cols df))"
    by simp
next
  fix i
  assume "i < length (map (\<lambda>r. cell_of r ''ID'')
                        (numbered_rows to_num today df required_cols kind))"
  then have "i < length (rows df)" by simp
  then show "map (\<lambda>r. cell_of r ''ID'') (numbered_rows to_num today df required_cols kind) ! i =
               final_ids (id_num to_num required_cols df) ! i"
    using assms by (simp add: ID_of_numbered_row)
qed

lemma id_column_normalize:
  assumes "valid_call required_cols kind" and "\<not> empty_df df"
    and "followed_ids (id_num to_num required_cols df)"
  shows "id_column (normalize to_num today df required_cols kind) =
           Inr (sort_key cell_key (final_ids (id_num to_num required_cols df)))"
proof -
  have "map (\<lambda>r. cell_of r ''ID'')
          (sort_key (\<lambda>r. cell_key (cell_of r ''ID''))
             (numbered_rows to_num today df required_cols kind)) =
        sort_key cell_key (final_ids (id_num to_num required_cols df))"
    by (simp only: map_sort_key [of "\<lambda>r. cell_of r ''ID''" cell_key]
          ID_numbered_rows [OF valid_call_ID [OF assms(1)]])
  then show ?thesis
    by (simp add: normalize_valid [OF assms] id_column_def col_def num_key_cell_key [abs_def])
qed

lemma id_column_normalize_empty:
  "empty_df df \<Longrightarrow> id_column (normalize to_num today df required_cols kind) = Inr []"
  by (simp add: normalize_empty id_column_def col_def new_frame_def)

lemma is_num_final_ids: "followed_ids vs \<Longrightarrow> list_all is_num (final_ids vs)"
proof (cases "distinct (notna vs)")
  case True
  assume "followed_ids vs"
  with True have "list_all num_or_null vs" by (simp add: followed_ids_def exact_ids_def)
  then show ?thesis by (simp add: final_ids_int_ids list_all_iff is_num_def)
next
  case False
  then show ?thesis by (simp add: final_ids_def range_cells_def list_all_iff is_num_def)
qed

lemma list_all_sort_key: "list_all P (sort_key f xs) = list_all P xs"
  by (simp add: list_all_iff)

text \<open>The identifiers a second normalisation starts from are those the first one left.\<close>

lemma id_num_of_normalized:
  assumes "valid_call required_cols kind" and "\<not> empty_df df"
    and "followed_ids (id_num to_num required_cols df)"
    and "normalize to_num today df required_cols kind = Inr out"
  shows "id_num to_num required_cols out =
           sort_key cell_key (final_ids (id_num to_num required_cols df))"
    and "\<not> empty_df out"
proof -
  have out: "out = \<lparr>columns = required_cols,
                rows = sort_key (num_key ''ID'')
                         (numbered_rows to_num today df required_cols kind)\<rparr>"
    using normalize_valid [OF assms(1,2,3), of today] assms(4) by simp
  have "id_column (Inr out) = Inr (sort_key cell_key (final_ids (id_num to_num required_cols df)))"
    using id_column_normalize [OF assms(1,2,3), of today] assms(4) by simp
  then have c: "col ''ID'' out = sort_key cell_key (final_ids (id_num to_num required_cols df))"
    by (simp add: id_column_def)
  have "list_all is_num (col ''ID'' out)"
    unfolding c by (simp add: list_all_sort_key is_num_final_ids assms(3))
  then have n: "map (to_numeric to_num) (col ''ID'' out) = col ''ID'' out"
    by (rule to_numeric_nums)
  have "input_rows required_cols out = rows out"
    by (rule input_rows_present) (simp add: out)
  then have "id_num to_num required_cols out = map (to_numeric to_num) (col ''ID'' out)"
    by (simp add: id_num_def col_def comp_def)
  then have "id_num to_num required_cols out = col ''ID'' out"
    unfolding n .
  then show "id_num to_num required_cols out =
           sort_key cell_key (final_ids (id_num to_num required_cols df))"
    unfolding c .
  have "rows df \<noteq> []" using assms(2) by (simp add: empty_df_def)
  moreover have "length (rows out) = length (rows df)"
    by (simp add: out)
  ultimately have "rows out \<noteq> []"
    by (metis length_0_conv)
  moreover have "columns out \<noteq> []"
    using valid_call_ID [OF assms(1)] by (auto simp: out)
  ultimately show "\<not> empty_df out" by (simp add: empty_df_def)
qed

lemma id_column_normalize_twice:
  assumes "valid_call required_cols kind" and "\<not> empty_df df"
    and "followed_ids (id_num to_num required_cols df)"
    and "followed_ids (sort_key cell_key (final_ids (id_num to_num required_cols df)))"
  shows "id_column (normalize_twice to_num today df required_cols kind) =
           Inr (sort_key cell_key (final_ids
                  (sort_key cell_key (final_ids (id_num to_num required_cols df)))))"
proof -
  obtain out where out: "normalize to_num today df required_cols kind = Inr out"
    using normalize_valid [OF assms(1,2,3)] by blast
  note ids = id_num_of_normalized(1) [OF assms(1,2,3) out]
  have "followed_ids (id_num to_num required_cols out)"
    unfolding ids by (rule assms(4))
  with assms(1) id_num_of_normalized(2) [OF assms(1,2,3) out]
  have "id_column (normalize to_num today out required_cols kind) =
          Inr (sort_key cell_key (final_ids (id_num to_num required_cols out)))"
    by (rule id_column_normalize)
  then show ?thesis
    by (simp add: normalize_twice_def out bind_err_def ids)
qed

lemma notna_values_nth:
  "i < length vs \<Longrightarrow> vs ! i = Num q \<Longrightarrow> q \<in> set (notna_values vs)"
proof (induction vs arbitrary: i)
  case Nil
  then show ?case by simp
next
  case (Cons v vs)
  show ?case
  proof (cases i)
    case 0
    with Cons.prems show ?thesis by simp
  next
    case (Suc j)
    with Cons.prems have "q \<in> set (notna_values vs)" by (intro Cons.IH [of j]) simp_all
    then show ?thesis by (cases v) simp_all
  qed
qed

lemma next_id_whole:
  assumes "list_all is_whole (notna_values vs)"
  shows "of_int (next_id vs) = max_existing vs + 1"
proof (cases "notna_values vs = []")
  case True
  then show ?thesis by (simp add: next_id_def max_existing_def)
next
  case False
  then have "Max (set (notna_values vs)) \<in> set (notna_values vs)" by simp
  with assms have "is_whole (Max (set (notna_values vs)))" by (simp add: list_all_iff)
  with False show ?thesis by (simp add: next_id_def max_existing_def is_whole_def)
qed

lemma final_ids_nth_whole:
  assumes "list_all num_or_null vs" and "distinct (notna_values vs)"
    and "list_all is_whole (notna_values vs)" and "i < length vs"
  shows "final_ids vs ! i =
           (if isna (vs ! i)
            then Num (max_existing vs + 1 + of_nat (length (filter isna (take i vs))))
            else vs ! i)"
proof (cases "isna (vs ! i)")
  case True
  have t: "trunc_cell (Num (of_int k)) = Num (of_int k)" for k
    by (simp add: trunc_cell_def)
  from assms(1,2,4) have "final_ids vs ! i = trunc_cell (assign_from (next_id vs) vs ! i)"
    by (simp add: final_ids_finite)
  also have "\<dots> = Num (of_int (next_id vs + int (length (filter isna (take i vs)))))"
    using True assms(4) by (simp only: nth_assign_from if_True t)
  finally show ?thesis
    using True by (simp add: next_id_whole [OF assms(3)])
next
  case False
  from assms(1,4) have "num_or_null (vs ! i)" by (simp add: list_all_length)
  with False obtain q where q: "vs ! i = Num q"
    by (cases "vs ! i") (simp_all add: isna_def num_or_null_def)
  with assms(4) have "q \<in> set (notna_values vs)" by (simp add: notna_values_nth)
  with assms(3) have "is_whole q" by (simp add: list_all_iff)
  with False q assms(1,2,4) show ?thesis
    by (simp add: final_ids_finite nth_assign_from trunc_cell_def is_whole_def)
qed

lemma sorted_int_cells:
  "sorted (map cell_key (map (\<lambda>k. Num (of_int k)) ks)) = sorted ks"
  by (simp add: comp_def cell_key_def sorted_map sorted_wrt_iff_nth_less)

lemma sort_int_cells:
  "sort_key cell_key (map (\<lambda>k. Num (of_int k)) ks) = map (\<lambda>k. Num (of_int k)) (sort ks)"
proof -
  have "map (\<lambda>k. Num (of_int k)) (sort_key (\<lambda>k. cell_key (Num (of_int k))) ks) =
          sort_key cell_key (map (\<lambda>k. Num (of_int k)) ks)"
    by (rule map_sort_key)
  moreover have "sort_key (\<lambda>k. cell_key (Num (of_int k))) ks = sort_key (\<lambda>k. k) ks"
  proof (induction ks)
    case Nil
    show ?case by simp
  next
    case (Cons k ks)
    have "insort_key (\<lambda>k. cell_key (Num (of_int k))) k xs = insort_key (\<lambda>k. k) k xs" for xs
      by (induction xs) (simp_all add: cell_key_def)
    with Cons show ?case by simp
  qed
  ultimately show ?thesis by simp
qed

section \<open>Lemmas: the identifier column after a round trip through the store\<close>

lemma required_cols_of_valid:
  "valid_call required_cols kind \<Longrightarrow> required_cols_of kind = Inr required_cols"
  by (auto simp: valid_call_def required_cols_of_def)

lemma rows_frame_of [simp]:
  "rows (frame_of header rws) = map (\<lambda>vs. map_of (zip header (map Txt vs))) rws"
  by (simp add: frame_of_def)

lemma columns_frame_of [simp]: "columns (frame_of header rws) = header"
  by (simp add: frame_of_def)

lemma cell_of_written_row:
  "c \<in> set cols \<Longrightarrow> cell_of (map_of (zip cols (map (\<lambda>c. Txt (g c)) cols))) c = Txt (g c)"
  by (simp add: cell_of_def map_of_zip_map)

lemma id_column_round_trip:
  assumes "valid_call required_cols kind" and "\<not> empty_df df"
    and "followed_ids (id_num to_num required_cols df)"
    and "followed_ids (map (reread to_num num_str)
           (sort_key cell_key (final_ids (id_num to_num required_cols df))))"
  shows "id_column (round_trip to_num num_str written read df kind) =
           Inr (sort_key cell_key (final_ids (map (reread to_num num_str)
                  (sort_key cell_key (final_ids (id_num to_num required_cols df))))))"
proof -
  define out where "out = \<lparr>columns = required_cols,
                            rows = sort_key (num_key ''ID'')
                                     (numbered_rows to_num written df required_cols kind)\<rparr>"
  define texts where
    "texts = map (\<lambda>r. map (\<lambda>c. astype_str num_str (cell_of r c)) required_cols) (rows out)"
  define reloaded where "reloaded = frame_of required_cols texts"
  have ID: "''ID'' \<in> set required_cols" using assms(1) by (rule valid_call_ID)
  have n1: "normalize to_num written df required_cols kind = Inr out"
    unfolding out_def using assms(1,2,3) by (rule normalize_valid)
  have w: "write_generic to_num num_str written df kind = Inr (required_cols # texts)"
    by (simp add: write_generic_def required_cols_of_valid [OF assms(1)] n1 bind_err_def
          texts_def out_def)
  have "rows df \<noteq> []" using assms(2) by (simp add: empty_df_def)
  moreover have "length texts = length (rows df)" by (simp add: texts_def out_def)
  ultimately have ne: "texts \<noteq> []" by (metis length_0_conv)
  have all: "list_all (\<lambda>vs. length vs = length required_cols) texts"
    by (simp add: texts_def list_all_iff)
  then have "list_all (\<lambda>vs. length vs \<le> length required_cols) texts"
    by (simp add: list_all_iff)
  moreover from all ne have "list_ex (\<lambda>vs. length vs = length required_cols) texts"
    by (cases texts) simp_all
  ultimately have d: "DataFrame texts required_cols = Inr reloaded"
    by (simp add: DataFrame_def reloaded_def)
  have l: "load_generic to_num read (required_cols # texts) kind =
             normalize to_num read reloaded required_cols kind"
    using ne by (simp add: load_generic_def required_cols_of_valid [OF assms(1)] bind_err_def d)
  have nb: "\<not> empty_df reloaded"
    using ne ID by (auto simp: empty_df_def reloaded_def)
  have c: "col ''ID'' out = sort_key cell_key (final_ids (id_num to_num required_cols df))"
    using id_column_normalize [OF assms(1,2,3), of written] by (simp add: n1 id_column_def)
  have "input_rows required_cols reloaded = rows reloaded"
    by (rule input_rows_present) (simp add: reloaded_def)
  then have "id_num to_num required_cols reloaded =
          map (\<lambda>r. reread to_num num_str (cell_of r ''ID'')) (rows out)"
    using ID by (simp add: id_num_def reloaded_def texts_def comp_def cell_of_written_row reread_def)
  also have "\<dots> = map (reread to_num num_str) (col ''ID'' out)"
    by (simp add: col_def comp_def)
  finally have ids: "id_num to_num required_cols reloaded =
      map (reread to_num num_str) (sort_key cell_key (final_ids (id_num to_num required_cols df)))"
    unfolding c .
  have "id_column (round_trip to_num num_str written read df kind) =
          id_column (normalize to_num read reloaded required_cols kind)"
    by (simp add: round_trip_def w bind_err_def l)
  also have "\<dots> = Inr (sort_key cell_key (final_ids (id_num to_num required_cols reloaded)))"
    using assms(1) nb
  proof (rule id_column_normalize)
    show "followed_ids (id_num to_num required_cols reloaded)"
      unfolding ids by (rule assms(4))
  qed
  finally show ?thesis unfolding ids .
qed

section \<open>Lemmas: the example worksheets\<close>

lemma valid_singole: "valid_call REQUIRED_COLUMNS_SINGOLE ''singole''"
  by (simp add: valid_call_def)

lemma valid_multiple: "valid_call REQUIRED_COLUMNS_MULTIPLE ''multiple''"
  by (simp add: valid_call_def)

lemma nonempty_frame_of: "header \<noteq> [] \<Longrightarrow> rws \<noteq> [] \<Longrightarrow> \<not> empty_df (frame_of header rws)"
  by (simp add: empty_df_def)

lemma input_rows_frame_of [simp]:
  "input_rows header (frame_of header rws) = rows (frame_of header rws)"
  by (rule input_rows_present) simp

lemma id_num_singole_sheet:
  "id_num to_num REQUIRED_COLUMNS_SINGOLE (frame_of REQUIRED_COLUMNS_SINGOLE rws) =
     map (\<lambda>vs. to_numeric to_num
                 (cell_of (map_of (zip REQUIRED_COLUMNS_SINGOLE (map Txt vs))) ''ID'')) rws"
  by (simp add: id_num_def comp_def)

lemmas reader_defs =
  plain_decimal_def signed_decimal_def unsigned_decimal_def digit_val_def to_numeric_def

lemma nonempty_examples:
  "\<not> empty_df sheet_dup" "\<not> empty_df sheet_gap" "\<not> empty_df sheet_frac"
  "\<not> empty_df sheet_half" "\<not> empty_df sheet_zero" "\<not> empty_df sheet_multiple"
  "\<not> empty_df sheet_inf"
  by (simp_all add: sheet_dup_def sheet_gap_def sheet_frac_def sheet_half_def sheet_zero_def
        sheet_multiple_def sheet_inf_def nonempty_frame_of REQUIRED_COLUMNS_SINGOLE_def
        REQUIRED_COLUMNS_MULTIPLE_def)

lemma ids_dup: "id_num plain_decimal REQUIRED_COLUMNS_SINGOLE sheet_dup = [Num 7, Null, Num 7]"
  unfolding sheet_dup_def id_num_singole_sheet
  by (simp add: REQUIRED_COLUMNS_SINGOLE_def cell_of_def reader_defs)

lemma ids_gap:
  "id_num plain_decimal REQUIRED_COLUMNS_SINGOLE sheet_gap = [Num 5, Null, Num 2, Null]"
  unfolding sheet_gap_def id_num_singole_sheet
  by (simp add: REQUIRED_COLUMNS_SINGOLE_def cell_of_def reader_defs)

lemma ids_frac:
  "id_num plain_decimal REQUIRED_COLUMNS_SINGOLE sheet_frac = [Num (6 / 5), Num (17 / 10)]"
  unfolding sheet_frac_def id_num_singole_sheet
  by (simp add: REQUIRED_COLUMNS_SINGOLE_def cell_of_def reader_defs)

lemma ids_half:
  "id_num plain_decimal REQUIRED_COLUMNS_SINGOLE sheet_half = [Num (3 / 2), Null]"
  unfolding sheet_half_def id_num_singole_sheet
  by (simp add: REQUIRED_COLUMNS_SINGOLE_def cell_of_def reader_defs)

lemma ids_zero: "id_num plain_decimal REQUIRED_COLUMNS_SINGOLE sheet_zero = [Num 0]"
  unfolding sheet_zero_def id_num_singole_sheet
  by (simp add: REQUIRED_COLUMNS_SINGOLE_def cell_of_def reader_defs)

lemma ids_inf: "id_num plain_decimal REQUIRED_COLUMNS_SINGOLE sheet_inf = [Infty True]"
  unfolding sheet_inf_def id_num_singole_sheet
  by (simp add: REQUIRED_COLUMNS_SINGOLE_def cell_of_def reader_defs)

lemma py_int_examples: "py_int (6 / 5) = 1" "py_int (17 / 10) = 1" "py_int (3 / 2) = 1"
  by (simp_all add: py_int_def floor_eq_iff)

lemmas ids_defs =
  final_ids_def followed_ids_def exact_ids_def exact_range_def notna_def isna_def
  num_or_null_def next_id_def trunc_cell_def

lemma final_ids_gap: "final_ids [Num 5, Null, Num 2, Null] = [Num 5, Num 6, Num 2, Num 7]"
  by (simp add: ids_defs)

lemma final_ids_frac: "final_ids [Num (6 / 5), Num (17 / 10)] = [Num 1, Num 1]"
  by (simp add: ids_defs py_int_examples)

lemma final_ids_half: "final_ids [Num (3 / 2), Null] = [Num 1, Num 2]"
  by (simp add: ids_defs py_int_examples)

lemma final_ids_zero: "final_ids [Num 0] = [Num 0]"
  by (simp add: ids_defs)

lemma final_ids_ones: "final_ids [Num 1, Num 1] = [Num 1, Num 2]"
  by (simp add: ids_defs range_cells_def upt_rec)

lemma followed_examples:
  "followed_ids [Num 7, Null, Num 7]" "followed_ids [Num 5, Null, Num 2, Null]"
  "followed_ids [Num (6 / 5), Num (17 / 10)]" "followed_ids [Num (3 / 2), Null]"
  "followed_ids [Num 0]" "followed_ids [Num 1, Num 1]" "followed_ids [Num 1, Num 2]"
  "followed_ids [Null, Null]"
  by (simp_all add: ids_defs py_int_examples)

lemma exact_examples:
  "exact_ids [Num 5, Null, Num 2, Null]" "exact_ids [Num (3 / 2), Null]" "exact_ids [Num 0]"
  "exact_ids [Num (6 / 5), Num (17 / 10)]"
  by (simp_all add: ids_defs py_int_examples)

lemma reread_one: "reread plain_decimal whole_text (Num 1) = Num 1"
  by (simp add: reread_def astype_str_def whole_text_def nat_text_def reader_defs)

lemma frac_normalized:
  "id_column (normalize plain_decimal today sheet_frac REQUIRED_COLUMNS_SINGOLE ''singole'') =
     Inr [Num 1, Num 1]"
  by (simp add: id_column_normalize [OF valid_singole nonempty_examples(3)] ids_frac
        final_ids_frac followed_examples cell_key_def)

lemma gap_normalized:
  "id_column (normalize plain_decimal today sheet_gap REQUIRED_COLUMNS_SINGOLE ''singole'') =
     Inr [Num 2, Num 5, Num 6, Num 7]"
  by (simp add: id_column_normalize [OF valid_singole nonempty_examples(2)] ids_gap
        final_ids_gap followed_examples cell_key_def)

section \<open>Lemmas: canonical tables are fixed points\<close>

lemma upd_fixed: "c \<in> dom r \<Longrightarrow> f (cell_of r c) = cell_of r c \<Longrightarrow> upd c f r = r"
  by (auto simp: upd_def cell_of_def fun_eq_iff)



lemma fillna_fixed: "v \<noteq> Null \<Longrightarrow> fillna d v = v"
  by (cases v) (simp_all add: fillna_def)

lemma isin_not_empty: "isin v OUTCOMES \<Longrightarrow> replace_val [] ''In attesa'' (fillna (Txt []) v) = v"
  by (cases v) (auto simp: isin_def replace_val_def fillna_def OUTCOMES_def)

lemma common_row_fixed:
  assumes "canonical_row required_cols kind r" and "valid_call required_cols kind"
  shows "common_row today r = r"
proof -
  have d: "''Esito'' \<in> dom r" "''Data'' \<in> dom r" "''Note'' \<in> dom r"
    using assms
    by (auto simp: canonical_row_def valid_call_def REQUIRED_COLUMNS_SINGOLE_def
          REQUIRED_COLUMNS_MULTIPLE_def)
  have 1: "upd ''Esito'' (replace_val [] ''In attesa'' \<circ> fillna (Txt [])) r = r"
    using d(1) assms(1) by (intro upd_fixed) (simp_all add: canonical_row_def isin_not_empty)
  have 2: "upd ''Esito'' (\<lambda>v. if isin v OUTCOMES then v else Txt ''In attesa'') r = r"
    using d(1) assms(1) by (intro upd_fixed) (simp_all add: canonical_row_def)
  have 3: "upd ''Data'' (fillna (Txt [])) r = r"
    using d(2) assms(1) by (intro upd_fixed) (simp_all add: canonical_row_def fillna_fixed)
  have 4: "upd ''Data'' (\<lambda>v. if blank_cell v then Txt today else v) r = r"
    using d(2) assms(1) by (intro upd_fixed) (simp_all add: canonical_row_def)
  have 5: "upd ''Note'' (fillna (Txt [])) r = r"
    using d(3) assms(1) by (intro upd_fixed) (simp_all add: canonical_row_def fillna_fixed)
  show ?thesis by (simp add: common_row_def 1 2 3 4 5)
qed

lemma kind_row_fixed:
  assumes "canonical_row required_cols kind r" and "valid_call required_cols kind"
  shows "kind_row to_num kind r = r"
proof (cases "kind = ''singole''")
  case True
  with assms(2) have req: "required_cols = REQUIRED_COLUMNS_SINGOLE" by (simp add: valid_call_def)
  have d: "''Quota'' \<in> dom r" "''Campionato'' \<in> dom r" "''Partita'' \<in> dom r" "''Mercato'' \<in> dom r"
    using assms(1) by (auto simp: canonical_row_def req REQUIRED_COLUMNS_SINGOLE_def)
  have c: "not_text (cell_of r ''Quota'')" "isin (cell_of r ''Campionato'') LEAGUES"
    "cell_of r ''Partita'' \<noteq> Null" "cell_of r ''Mercato'' \<noteq> Null"
    using assms(1) True by (simp_all add: canonical_row_def)
  have 1: "upd ''Quota'' (to_numeric to_num) r = r"
    using d(1) c(1) by (intro upd_fixed) (simp_all add: to_numeric_fixed)
  have "cell_of r ''Campionato'' \<noteq> Null" using c(2) by (auto simp: isin_def)
  then have 2: "upd ''Campionato'' (fillna (Txt ''Altro'')) r = r"
    using d(2) by (intro upd_fixed) (simp_all add: fillna_fixed)
  have 3: "upd ''Campionato'' (\<lambda>v. if isin v LEAGUES then v else Txt ''Altro'') r = r"
    using d(2) c(2) by (intro upd_fixed) simp_all
  have 4: "upd ''Partita'' (fillna (Txt [])) r = r"
    using d(3) c(3) by (intro upd_fixed) (simp_all add: fillna_fixed)
  have 5: "upd ''Mercato'' (fillna (Txt [])) r = r"
    using d(4) c(4) by (intro upd_fixed) (simp_all add: fillna_fixed)
  show ?thesis using True by (simp add: kind_row_def singole_row_def 1 2 3 4 5)
next
  case False
  with assms(2) have req: "required_cols = REQUIRED_COLUMNS_MULTIPLE" by (simp add: valid_call_def)
  have d: "''Quota Totale'' \<in> dom r" "''Stake'' \<in> dom r" "''Multipla'' \<in> dom r"
    using assms(1) by (auto simp: canonical_row_def req REQUIRED_COLUMNS_MULTIPLE_def)
  have c: "not_text (cell_of r ''Quota Totale'')"
    "not_text (cell_of r ''Stake'') \<and> cell_of r ''Stake'' \<noteq> Null"
    "cell_of r ''Multipla'' \<noteq> Null"
    using assms(1) False by (simp_all add: canonical_row_def)
  have 1: "upd ''Quota Totale'' (to_numeric to_num) r = r"
    using d(1) c(1) by (intro upd_fixed) (simp_all add: to_numeric_fixed)
  have "(fillna (Num 0) \<circ> to_numeric to_num) (cell_of r ''Stake'') = cell_of r ''Stake''"
    using c(2)
    by (cases "cell_of r ''Stake''") (simp_all add: not_text_def to_numeric_def fillna_def)
  then have 2: "upd ''Stake'' (fillna (Num 0) \<circ> to_numeric to_num) r = r"
    using d(2) by (intro upd_fixed)
  have 3: "upd ''Multipla'' (fillna (Txt [])) r = r"
    using d(3) c(3) by (intro upd_fixed) (simp_all add: fillna_fixed)
  show ?thesis using False by (simp add: kind_row_def multiple_row_def 1 2 3)
qed

lemma select_row_fixed: "dom r = set cols \<Longrightarrow> select_row cols r = r"
  by (auto simp: select_row_def cell_of_def fun_eq_iff domIff split: option.splits)

lemma int_assign_ints: "int_assign a (map (\<lambda>k. Num (of_int k)) ks) = ks"
  by (induction ks) simp_all

lemma whole_cells_ints:
  "list_all whole_cell vs \<Longrightarrow> vs = map (\<lambda>k. Num (of_int k)) (map (\<lambda>v. py_int (cell_key v)) vs)"
  by (induction vs) (auto simp: whole_cell_def is_whole_def cell_key_def split: cell.splits)

lemma notna_values_ints: "notna_values (map (\<lambda>k. Num (of_int k)) ks) = map of_int ks"
  by (induction ks) simp_all

lemma final_ids_canonical:
  assumes "list_all whole_cell vs" and "sorted_wrt (<) (map cell_key vs)"
  shows "final_ids vs = vs"
proof -
  define ks where "ks = map (\<lambda>v. py_int (cell_key v)) vs"
  have vs: "vs = map (\<lambda>k. Num (of_int k)) ks"
    unfolding ks_def using assms(1) by (rule whole_cells_ints)
  have "distinct (map cell_key vs)"
    using assms(2) by (simp add: strict_sorted_iff)
  then have "distinct (notna_values vs)"
    by (subst vs, simp add: notna_values_ints) (simp add: vs cell_key_def comp_def)
  moreover have "list_all num_or_null vs"
    by (subst vs) (simp add: list_all_iff num_or_null_def)
  ultimately have "final_ids vs = map (\<lambda>k. Num (of_int k)) (int_assign (next_id vs) vs)"
    by (simp add: final_ids_int_ids int_ids_def)
  also have "int_assign (next_id vs) vs = ks"
    by (subst (2) vs) (rule int_assign_ints)
  finally show ?thesis using vs by simp
qed

lemma exact_whole_cells:
  assumes "list_all whole_cell vs"
  shows "exact_ids vs"
proof -
  have nn: "list_all num_or_null vs"
    using assms by (auto simp: list_all_iff whole_cell_def num_or_null_def split: cell.splits)
  have none: "filter isna vs = []"
    using assms by (auto simp: filter_empty_conv list_all_iff whole_cell_def isna_def)
  have small: "\<bar>q\<bar> \<le> 2 ^ 53" if "q \<in> set (notna_values vs)" for q
  proof -
    from that have "Num q \<in> set vs" by (simp add: Num_in_notna_values)
    with assms have "whole_cell (Num q)" by (simp add: list_all_iff)
    then show ?thesis by (simp add: whole_cell_def)
  qed
  have "\<bar>next_id vs - 1\<bar> \<le> 2 ^ 53"
  proof (cases "notna_values vs = []")
    case True
    then show ?thesis by (simp add: next_id_def)
  next
    case False
    then have "Max (set (notna_values vs)) \<in> set (notna_values vs)" by simp
    then have "\<bar>Max (set (notna_values vs))\<bar> \<le> 2 ^ 53" by (rule small)
    then have "\<bar>py_int (Max (set (notna_values vs)))\<bar> \<le> 2 ^ 53" by (rule py_int_small)
    with False show ?thesis by (simp add: next_id_def)
  qed
  with nn none small show ?thesis
    by (simp add: exact_ids_def exact_range_def list_all_iff)
qed

lemma normalize_canonical:
  assumes "valid_call required_cols kind" and "canonical required_cols kind df"
  shows "normalize to_num today df required_cols kind = Inr df"
proof (cases "rows df = []")
  case True
  with assms(2) have "df = new_frame required_cols"
    by (simp add: canonical_def new_frame_def)
  with True show ?thesis by (simp add: normalize_empty empty_df_def new_frame_def)
next
  case False
  have cols: "columns df = required_cols" using assms(2) by (simp add: canonical_def)
  have ID: "''ID'' \<in> set required_cols" using assms(1) by (rule valid_call_ID)
  from cols ID False have ne: "\<not> empty_df df" by (auto simp: empty_df_def)
  have rs: "list_all (canonical_row required_cols kind) (rows df)"
    using assms(2) by (simp add: canonical_def)
  have inp: "input_rows required_cols df = rows df"
    by (rule input_rows_present) (simp add: cols)
  have "(kind_row to_num kind \<circ> common_row today) r = r" if "r \<in> set (rows df)" for r
  proof -
    from that rs have "canonical_row required_cols kind r" by (simp add: list_all_iff)
    then show ?thesis using assms(1) by (simp add: kind_row_fixed common_row_fixed)
  qed
  then have co: "coerced_rows to_num today df required_cols kind = rows df"
    unfolding coerced_rows_def inp by (rule map_idI)
  have whole: "list_all whole_cell (col ''ID'' df)"
    using rs by (simp add: col_def list_all_iff canonical_row_def)
  then have "list_all not_text (col ''ID'' df)"
    by (auto simp: list_all_iff whole_cell_def not_text_def split: cell.splits)
  then have "map (to_numeric to_num) (col ''ID'' df) = col ''ID'' df"
    by (simp add: list_all_iff map_idI to_numeric_fixed)
  then have ids: "id_num to_num required_cols df = col ''ID'' df"
    by (simp add: id_num_def inp col_def comp_def)
  have fol: "followed_ids (id_num to_num required_cols df)"
    unfolding ids using whole by (intro followed_exact exact_whole_cells)
  have srt: "sorted_wrt (<) (map cell_key (col ''ID'' df))"
    using assms(2) by (simp add: canonical_def col_def comp_def num_key_cell_key [abs_def])
  have fin: "final_ids (id_num to_num required_cols df) = col ''ID'' df"
    unfolding ids using whole srt by (rule final_ids_canonical)
  have nr: "numbered_rows to_num today df required_cols kind = rows df"
  proof (rule nth_equalityI)
    show "length (numbered_rows to_num today df required_cols kind) = length (rows df)" by simp
  next
    fix i assume "i < length (numbered_rows to_num today df required_cols kind)"
    then have i: "i < length (rows df)" by simp
    with rs have c: "canonical_row required_cols kind (rows df ! i)"
      by (simp add: list_all_length)
    then have d: "dom (rows df ! i) = set required_cols" by (simp add: canonical_row_def)
    with ID have "(rows df ! i)(''ID'' \<mapsto> cell_of (rows df ! i) ''ID'') = rows df ! i"
      by (auto simp: cell_of_def fun_eq_iff domIff split: option.splits)
    with i d show "numbered_rows to_num today df required_cols kind ! i = rows df ! i"
      by (simp add: nth_numbered_rows co fin col_def select_row_fixed)
  qed
  have "sorted (map (num_key ''ID'') (rows df))"
    using assms(2) by (simp add: canonical_def strict_sorted_imp_sorted)
  then have "sort_key (num_key ''ID'') (rows df) = rows df" by (rule sort_key_id_if_sorted)
  then show ?thesis
    using cols by (simp add: normalize_valid [OF assms(1) ne fol] nr)
qed

lemma Data_coerced:
  "cell_of ((kind_row to_num kind \<circ> common_row today) r) ''Data'' =
     (if blank_cell (fillna (Txt []) (cell_of r ''Data'')) then Txt today
      else fillna (Txt []) (cell_of r ''Data''))"
  by (simp add: kind_row_def singole_row_def multiple_row_def common_row_def
        cell_of_upd_other cell_of_upd_same)

lemma Note_coerced:
  "cell_of ((kind_row to_num kind \<circ> common_row today) r) ''Note'' =
     fillna (Txt []) (cell_of r ''Note'')"
  by (simp add: kind_row_def singole_row_def multiple_row_def common_row_def
        cell_of_upd_other cell_of_upd_same)

lemma Partita_coerced:
  "cell_of ((kind_row to_num ''singole'' \<circ> common_row today) r) ''Partita'' =
     fillna (Txt []) (cell_of r ''Partita'')"
  by (simp add: kind_row_def singole_row_def common_row_def cell_of_upd_other cell_of_upd_same)

lemma Mercato_coerced:
  "cell_of ((kind_row to_num ''singole'' \<circ> common_row today) r) ''Mercato'' =
     fillna (Txt []) (cell_of r ''Mercato'')"
  by (simp add: kind_row_def singole_row_def common_row_def cell_of_upd_other cell_of_upd_same)

lemma Multipla_coerced:
  "cell_of ((kind_row to_num ''multiple'' \<circ> common_row today) r) ''Multipla'' =
     fillna (Txt []) (cell_of r ''Multipla'')"
  by (simp add: kind_row_def multiple_row_def common_row_def cell_of_upd_other cell_of_upd_same)

lemma fillna_text_not_null [simp]: "fillna (Txt s) v \<noteq> Null"
  by (cases v) (simp_all add: fillna_def)

lemma date_not_blank:
  "\<not> is_blank today \<Longrightarrow>
     \<not> blank_cell (if blank_cell (fillna (Txt []) v) then Txt today else fillna (Txt []) v)"
  by (simp add: blank_cell_def)

lemma date_not_null:
  "(if blank_cell (fillna (Txt []) v) then Txt today else fillna (Txt []) v) \<noteq> Null"
  by simp

lemma isin_coerced: "s \<in> set xs \<Longrightarrow> isin (if isin v xs then v else Txt s) xs"
  by (simp add: isin_def)

lemma stake_not_text: "not_text (fillna (Num 0) (to_numeric to_num v))"
  by (simp add: not_text_def fillna_def to_numeric_def split: cell.splits reading.splits)

lemma stake_not_null: "fillna (Num 0) (to_numeric to_num v) \<noteq> Null"
  by (simp add: fillna_def to_numeric_def split: cell.splits reading.splits)

text \<open>
  The identifiers \<open>_ensure_ids\<close> returns are whole numbers within the exact range, for
  a table of at most \<open>2^53\<close> rows.
\<close>

lemma whole_final_ids:
  assumes "followed_ids vs" and "int (length vs) \<le> 2 ^ 53"
  shows "list_all whole_cell (final_ids vs)"
proof (cases "distinct (notna vs)")
  case False
  have "whole_cell (Num (of_int (1 + int k)))" if "k < length vs" for k
  proof -
    from that assms(2) have "\<bar>1 + int k\<bar> \<le> 2 ^ 53" by simp
    then have "\<bar>(of_int (1 + int k) :: rat)\<bar> \<le> 2 ^ 53"
      by (metis of_int_abs of_int_le_iff of_int_numeral of_int_power)
    moreover have "is_whole (of_int (1 + int k))"
      unfolding is_whole_def by (simp only: py_int_of_int)
    ultimately show ?thesis by (simp only: whole_cell_def cell.case simp_thms)
  qed
  with False show ?thesis by (simp add: final_ids_def range_cells_def list_all_iff)
next
  case True
  with assms(1) have ex: "exact_ids vs" by (simp add: followed_ids_def)
  then have nn: "list_all num_or_null vs" by (rule exact_num_or_null)
  have nums: "list_all is_num (assign_from (next_id vs) vs)"
    using nn by (rule is_num_assign_from)
  have small: "list_all (\<lambda>q. \<bar>q\<bar> \<le> 2 ^ 53) (notna_values (assign_from (next_id vs) vs))"
    using ex by (rule small_final_values)
  have "whole_cell (trunc_cell v)" if "v \<in> set (assign_from (next_id vs) vs)" for v
  proof -
    from that nums have "is_num v" by (simp add: list_all_iff)
    then obtain q where q: "v = Num q"
      by (cases v) (simp_all add: is_num_def)
    with that have "q \<in> set (notna_values (assign_from (next_id vs) vs))"
      by (simp add: Num_in_notna_values)
    with small have "\<bar>q\<bar> \<le> 2 ^ 53" by (simp add: list_all_iff)
    then have "\<bar>py_int q\<bar> \<le> 2 ^ 53" by (rule py_int_small)
    then have "\<bar>(of_int (py_int q) :: rat)\<bar> \<le> 2 ^ 53"
      by (metis of_int_abs of_int_le_iff of_int_numeral of_int_power)
    moreover have "is_whole (of_int (py_int q))"
      unfolding is_whole_def by (simp only: py_int_of_int)
    ultimately show ?thesis by (simp only: q trunc_cell_def whole_cell_def cell.case simp_thms)
  qed
  with True show ?thesis by (simp add: final_ids_def list_all_iff)
qed

lemma length_int_assign [simp]: "length (int_assign a vs) = length vs"
  by (induction a vs rule: int_assign.induct) simp_all

lemma length_int_ids [simp]: "length (int_ids vs) = length vs"
  by (simp add: int_ids_def)

lemma canonical_numbered_row:
  assumes "valid_call required_cols kind" and "\<not> is_blank today" and "i < length (rows df)"
    and "followed_ids (id_num to_num required_cols df)"
    and "int (length (rows df)) \<le> 2 ^ 53"
  shows "canonical_row required_cols kind
           (numbered_rows to_num today df required_cols kind ! i)"
proof -
  let ?n = "numbered_rows to_num today df required_cols kind ! i"
  let ?r = "input_rows required_cols df ! i"
  have ID: "''ID'' \<in> set required_cols" using assms(1) by (rule valid_call_ID)
  have c: "cell_of ?n c = cell_of ((kind_row to_num kind \<circ> common_row today) ?r) c"
    if "c \<in> set required_cols" "c \<noteq> ''ID''" for c
    using assms(3) that by (rule cell_of_numbered_row)
  have common: "''Esito'' \<in> set required_cols" "''Data'' \<in> set required_cols"
    "''Note'' \<in> set required_cols"
    using assms(1)
    by (auto simp: valid_call_def REQUIRED_COLUMNS_SINGOLE_def REQUIRED_COLUMNS_MULTIPLE_def)
  have "dom ?n = set required_cols" using assms(3) by (simp add: nth_numbered_rows)
  moreover have "whole_cell (cell_of ?n ''ID'')"
  proof -
    have "list_all whole_cell (final_ids (id_num to_num required_cols df))"
      using assms(4,5) by (intro whole_final_ids) simp_all
    with assms(3) have "whole_cell (final_ids (id_num to_num required_cols df) ! i)"
      by (simp add: list_all_length)
    with assms(3) ID show ?thesis by (simp add: ID_of_numbered_row)
  qed
  moreover have "isin (cell_of ?n ''Esito'') OUTCOMES"
    using common(1) by (simp add: c Esito_coerced isin_coerced OUTCOMES_def del: o_apply)
  moreover have "cell_of ?n ''Data'' \<noteq> Null" "\<not> blank_cell (cell_of ?n ''Data'')"
    using common(2) assms(2) date_not_blank [OF assms(2)]
    by (simp_all add: c Data_coerced del: o_apply)
  moreover have "cell_of ?n ''Note'' \<noteq> Null"
    using common(3) by (simp add: c Note_coerced del: o_apply)
  moreover have "not_text (cell_of ?n ''Quota'') \<and> isin (cell_of ?n ''Campionato'') LEAGUES \<and>
            cell_of ?n ''Partita'' \<noteq> Null \<and> cell_of ?n ''Mercato'' \<noteq> Null"
    if k: "kind = ''singole''"
  proof -
    from k assms(1) have "required_cols = REQUIRED_COLUMNS_SINGOLE" by (simp add: valid_call_def)
    then have m: "''Quota'' \<in> set required_cols" "''Campionato'' \<in> set required_cols"
      "''Partita'' \<in> set required_cols" "''Mercato'' \<in> set required_cols"
      by (simp_all add: REQUIRED_COLUMNS_SINGOLE_def)
    show ?thesis
      using m unfolding k
      by (simp add: c [unfolded k] Quota_coerced Campionato_coerced Partita_coerced
            Mercato_coerced isin_coerced LEAGUES_def del: o_apply)
  qed
  moreover have "not_text (cell_of ?n ''Quota Totale'') \<and>
            not_text (cell_of ?n ''Stake'') \<and> cell_of ?n ''Stake'' \<noteq> Null \<and>
            cell_of ?n ''Multipla'' \<noteq> Null"
    if k: "kind \<noteq> ''singole''"
  proof -
    from k assms(1) have k': "kind = ''multiple''" and "required_cols = REQUIRED_COLUMNS_MULTIPLE"
      by (simp_all add: valid_call_def)
    then have m: "''Quota Totale'' \<in> set required_cols" "''Stake'' \<in> set required_cols"
      "''Multipla'' \<in> set required_cols"
      by (simp_all add: REQUIRED_COLUMNS_MULTIPLE_def)
    show ?thesis
      using m unfolding k'
      by (simp add: c [unfolded k'] Quota_Totale_coerced Stake_coerced Multipla_coerced
            stake_not_text stake_not_null del: o_apply)
  qed
  ultimately show ?thesis by (simp add: canonical_row_def)
qed

lemma sort_key_keys: "map f (sort_key f xs) = sort (map f xs)"
  using map_sort_key [of f "\<lambda>x. x" xs] by simp

lemma distinct_final_ids:
  assumes "followed_ids vs"
    and "distinct (notna_values vs) \<longrightarrow> distinct (map py_int (notna_values vs))"
  shows "distinct (map cell_key (final_ids vs))"
proof (cases "distinct (notna vs)")
  case True
  with assms(1) have "list_all num_or_null vs" by (simp add: followed_ids_def exact_ids_def)
  then have "map cell_key (final_ids vs) = map of_int (int_ids vs)"
    by (simp add: final_ids_int_ids cell_key_def comp_def)
  then show ?thesis using distinct_int_ids [OF assms(2)] by (simp add: distinct_map inj_on_def)
next
  case False
  have "map cell_key (final_ids vs) = map (\<lambda>k. of_int (1 + int k)) [0..<length vs]"
    using False by (simp add: final_ids_def range_cells_def cell_key_def)
  moreover have "inj_on (\<lambda>k. (of_int (1 + int k) :: rat)) (set [0..<length vs])"
    by (simp add: inj_on_def)
  ultimately show ?thesis by (simp add: distinct_map del: of_int_add)
qed

lemma normalize_idempotent:
  assumes "valid_call required_cols kind" and "\<not> is_blank today"
    and "distinct (notna_values (id_num to_num required_cols df)) \<longrightarrow>
         distinct (map py_int (notna_values (id_num to_num required_cols df)))"
    and "followed_ids (id_num to_num required_cols df)"
    and "int (length (rows df)) \<le> 2 ^ 53"
  shows "normalize_twice to_num today df required_cols kind =
           normalize to_num today df required_cols kind"
proof (cases "empty_df df")
  case True
  have "empty_df (new_frame required_cols)" by (simp add: empty_df_def new_frame_def)
  with True show ?thesis by (simp add: normalize_twice_def normalize_empty bind_err_def)
next
  case False
  let ?nr = "numbered_rows to_num today df required_cols kind"
  define out where "out = \<lparr>columns = required_cols, rows = sort_key (num_key ''ID'') ?nr\<rparr>"
  have n: "normalize to_num today df required_cols kind = Inr out"
    unfolding out_def using assms(1) False assms(4) by (rule normalize_valid)
  have ID: "''ID'' \<in> set required_cols" using assms(1) by (rule valid_call_ID)
  have "canonical_row required_cols kind r" if "r \<in> set ?nr" for r
  proof -
    from that obtain i where "i < length ?nr" "r = ?nr ! i" by (auto simp: in_set_conv_nth)
    then show ?thesis using canonical_numbered_row [OF assms(1,2) _ assms(4,5)] by simp
  qed
  then have rws: "list_all (canonical_row required_cols kind) (rows out)"
    by (simp add: out_def list_all_iff)
  have keys: "map (num_key ''ID'') ?nr =
      map cell_key (final_ids (id_num to_num required_cols df))"
    using ID_numbered_rows [OF ID, of to_num today df kind, symmetric]
    by (simp add: num_key_cell_key [abs_def] comp_def)
  have "distinct (map (num_key ''ID'') ?nr)"
    unfolding keys using assms(4,3) by (rule distinct_final_ids)
  then have "sorted_wrt (<) (map (num_key ''ID'') (rows out))"
    by (simp add: out_def sort_key_keys strict_sorted_iff)
  with rws have "canonical required_cols kind out"
    by (simp add: canonical_def out_def)
  with assms(1) have "normalize to_num today out required_cols kind = Inr out"
    by (rule normalize_canonical)
  then show ?thesis by (simp add: normalize_twice_def n bind_err_def)
qed

section \<open>Lemmas: the table \<open>_normalize\<close> returns, whenever it returns\<close>

text \<open>
  Whatever the identifiers are, a table \<open>_normalize\<close> returns holds the coerced rows of
  the input, each with an identifier and cut to the required columns, sorted by
  identifier.
\<close>

lemma normalize_shape:
  assumes "valid_call required_cols kind" and "\<not> empty_df df"
    and "normalize to_num today df required_cols kind = Inr out"
  shows "\<exists>ids. length ids = length (rows df) \<and>
           out = \<lparr>columns = required_cols,
                  rows = sort_key (num_key ''ID'')
                           (map2 (\<lambda>r v. select_row required_cols (r(''ID'' \<mapsto> v)))
                              (coerced_rows to_num today df required_cols kind) ids)\<rparr>"
proof -
  define cs where "cs = coerced_rows to_num today df required_cols kind"
  define c where "c = map_rows (kind_row to_num kind \<circ> common_row today)
                        (ensure_columns required_cols df)"
  have ne: "rows df \<noteq> []" using assms(2) by (simp add: empty_df_def)
  have ID: "''ID'' \<in> set required_cols" using assms(1) by (rule valid_call_ID)
  have step: "coerce_fields to_num today df required_cols kind = Inr c"
    using assms(1) by (simp add: coerce_fields_valid c_def)
  have ccols: "set required_cols \<subseteq> set (columns c)"
    unfolding c_def by (rule columns_coerced)
  have crows: "rows c = cs" unfolding c_def cs_def by (rule rows_coerced)
  have clen: "length (rows c) = length (rows df)" by (simp add: crows cs_def)
  with ne have cne: "rows c \<noteq> []" by (metis length_0_conv)
  from assms(2,3) have run: "bind_err (ensure_ids to_num c) (\<lambda>df.
           bind_err (select_cols required_cols df) (sort_values ''ID'')) = Inr out"
    by (simp add: normalize_def step bind_err_def)
  then obtain e where e: "ensure_ids to_num c = Inr e"
    by (cases "ensure_ids to_num c") (simp_all add: bind_err_def)
  from e ccols ID cne obtain ids where
    ids: "length ids = length (rows c)" "e = set_col ''ID'' ids c"
    using ensure_ids_shape [of to_num c e] by auto
  have rws: "rows e = map2 (\<lambda>r v. r(''ID'' \<mapsto> v)) cs ids"
    by (simp add: ids(2) set_col_def crows)
  have cols: "set required_cols \<subseteq> set (columns e)"
    using ccols by (simp add: ids(2) set_col_def)
  have "length ids = length cs" using ids(1) by (simp add: crows)
  then have sel: "map (\<lambda>r c. if c \<in> set required_cols then Some (cell_of r c) else None) (rows e) =
             map2 (\<lambda>r v. select_row required_cols (r(''ID'' \<mapsto> v))) cs ids"
    unfolding rws by (rule select_numbered)
  have "select_cols required_cols e =
          Inr \<lparr>columns = required_cols,
               rows = map2 (\<lambda>r v. select_row required_cols (r(''ID'' \<mapsto> v))) cs ids\<rparr>"
    using cols by (simp add: select_cols_def sel)
  with run ID have "out = \<lparr>columns = required_cols,
                  rows = sort_key (num_key ''ID'')
                           (map2 (\<lambda>r v. select_row required_cols (r(''ID'' \<mapsto> v))) cs ids)\<rparr>"
    by (simp add: e bind_err_def sort_values_def)
  with ids(1) clen show ?thesis unfolding cs_def by auto
qed

lemma coerced_cell:
  assumes "i < length (rows df)"
  shows "cell_of (coerced_rows to_num today df required_cols kind ! i) c =
           cell_of ((kind_row to_num kind \<circ> common_row today)
                      (input_rows required_cols df ! i)) c"
  using assms by (simp add: nth_coerced_rows del: o_apply)

text \<open>An infinite identifier that is not repeated makes \<open>_ensure_ids\<close> raise.\<close>

lemma ensure_ids_overflow:
  assumes "''ID'' \<in> set (columns df)" and "rows df \<noteq> []"
    and "map (to_numeric to_num) (col ''ID'' df) = [Infty True]"
  shows "ensure_ids to_num df = Inl OverflowError"
proof -
  define df1 where "df1 = map_rows (upd ''ID'' (to_numeric to_num)) df"
  have ne: "\<not> empty_df df" using assms(1,2) by (auto simp: empty_df_def)
  have step1: "apply_col ''ID'' (to_numeric to_num) df = Inr df1"
    using assms(1) by (simp add: apply_col_present df1_def)
  have c1: "col ''ID'' df1 = [Infty True]" by (simp add: df1_def col_upd_same assms(3))
  show ?thesis
    using ne
    by (simp add: ensure_ids_def step1 bind_err_def c1 Let_def notna_def isna_def col_max_def
          int_of_cell_def)
qed

lemma normalize_overflow:
  assumes "valid_call required_cols kind" and "\<not> empty_df df"
    and "id_num to_num required_cols df = [Infty True]"
  shows "normalize to_num today df required_cols kind = Inl OverflowError"
proof -
  define c where "c = map_rows (kind_row to_num kind \<circ> common_row today)
                        (ensure_columns required_cols df)"
  have ne: "rows df \<noteq> []" using assms(2) by (simp add: empty_df_def)
  have step: "coerce_fields to_num today df required_cols kind = Inr c"
    using assms(1) by (simp add: coerce_fields_valid c_def)
  have "rows c = coerced_rows to_num today df required_cols kind"
    unfolding c_def by (rule rows_coerced)
  then have "length (rows c) = length (rows df)" by simp
  with ne have cne: "rows c \<noteq> []" by (metis length_0_conv)
  have "ensure_ids to_num c = Inl OverflowError"
  proof (rule ensure_ids_overflow)
    show "''ID'' \<in> set (columns c)"
      using columns_coerced [of required_cols to_num kind today df] valid_call_ID [OF assms(1)]
      by (auto simp: c_def)
    show "rows c \<noteq> []" by (rule cne)
    show "map (to_numeric to_num) (col ''ID'' c) = [Infty True]"
      unfolding c_def id_num_coerced by (rule assms(3))
  qed
  then show ?thesis using assms(2) by (simp add: normalize_def step bind_err_def)
qed

section \<open>The claims\<close>

text \<open>
  C1. When two rows of a table carry the same numeric identifier, \<open>normalize\<close> discards
  every identifier and numbers the rows 1 to N in their order: row \<open>i\<close> of the result is
  row \<open>i\<close> of the input, coerced, with identifier \<open>i + 1\<close> (rows counted from 0). The
  table is one pandas does not call empty, which a table with an identifier column
  and two rows is.
\<close>

theorem normalize_duplicate_ids_renumbered:
  assumes "valid_call required_cols kind" and "\<not> empty_df df"
    and "\<not> distinct (notna_values (id_num to_num required_cols df))"
  shows "normalize to_num today df required_cols kind =
           Inr \<lparr>columns = required_cols,
                rows = map (\<lambda>i. select_row required_cols
                              ((coerced_rows to_num today df required_cols kind ! i)
                                 (''ID'' \<mapsto> Num (of_nat (i + 1)))))
                         [0..<length (rows df)]\<rparr>"
proof -
  let ?rs = "map (\<lambda>i. select_row required_cols
                              ((coerced_rows to_num today df required_cols kind ! i)
                                 (''ID'' \<mapsto> Num (of_nat (i + 1)))))
                         [0..<length (rows df)]"
  have ID: "''ID'' \<in> set required_cols" using assms(1) by (rule valid_call_ID)
  have fin: "final_ids (id_num to_num required_cols df) = range_cells 1 (length (rows df))"
    using assms(3) by (simp add: final_ids_duplicate)
  have fol: "followed_ids (id_num to_num required_cols df)"
    using assms(3) by (rule followed_duplicate)
  have nr: "numbered_rows to_num today df required_cols kind = ?rs"
    by (rule nth_equalityI) (simp_all add: nth_numbered_rows fin nth_range_cells add.commute)
  have keys: "map (num_key ''ID'') ?rs = map (\<lambda>i. of_nat (i + 1)) [0..<length (rows df)]"
    using ID by (simp add: num_key_def cell_of_select_row)
  have "sorted (map (\<lambda>i. (of_nat (i + 1) :: rat)) [0..<length (rows df)])"
    by (simp add: sorted_map sorted_wrt_iff_nth_less del: of_nat_add of_nat_Suc)
  then have "sorted (map (num_key ''ID'') ?rs)" unfolding keys .
  then have "sort_key (num_key ''ID'') ?rs = ?rs" by (rule sort_key_id_if_sorted)
  then show ?thesis
    using normalize_valid [OF assms(1,2) fol, of today] by (simp add: nr)
qed

theorem normalize_duplicate_ids_renumbered_witness:
  "valid_call REQUIRED_COLUMNS_SINGOLE ''singole'' \<and> \<not> empty_df sheet_dup \<and>
   id_num plain_decimal REQUIRED_COLUMNS_SINGOLE sheet_dup = [Num 7, Null, Num 7] \<and>
   \<not> distinct (notna_values (id_num plain_decimal REQUIRED_COLUMNS_SINGOLE sheet_dup)) \<and>
   id_column (normalize plain_decimal ''2024-06-01'' sheet_dup REQUIRED_COLUMNS_SINGOLE ''singole'')
     = Inr [Num 1, Num 2, Num 3]"
proof -
  have dup: "\<not> distinct (notna_values (id_num plain_decimal REQUIRED_COLUMNS_SINGOLE sheet_dup))"
    by (simp add: ids_dup)
  have len: "length (rows sheet_dup) = 3" by (simp add: sheet_dup_def)
  have ID: "''ID'' \<in> set REQUIRED_COLUMNS_SINGOLE" by (simp add: REQUIRED_COLUMNS_SINGOLE_def)
  have "id_column (normalize plain_decimal ''2024-06-01'' sheet_dup
                     REQUIRED_COLUMNS_SINGOLE ''singole'') = Inr [Num 1, Num 2, Num 3]"
    unfolding normalize_duplicate_ids_renumbered [OF valid_singole nonempty_examples(1) dup] len
    using ID by (simp add: id_column_def col_def cell_of_select_row upt_rec)
  with dup show ?thesis
    by (simp add: valid_singole nonempty_examples ids_dup)
qed

text \<open>
  C2 (amended). When the numeric identifiers of a table are pairwise distinct whole
  numbers within the exact range (none is infinite, and none, the new ones included, is
  larger than \<open>2^53\<close> in magnitude), \<open>normalize\<close> keeps them and gives the rows without
  a numeric identifier, in row order, the numbers that follow the largest one
  (1, 2, ... when there is none): before the final sort, row \<open>i\<close> holds its own
  identifier, or the largest plus one plus the number of rows without identifier above
  it.
\<close>

theorem normalize_missing_ids_continue:
  assumes "valid_call required_cols kind" and "\<not> empty_df df"
    and "distinct (notna_values (id_num to_num required_cols df))"
    and "list_all is_whole (notna_values (id_num to_num required_cols df))"
    and "exact_ids (id_num to_num required_cols df)"
  shows "normalize to_num today df required_cols kind =
           Inr \<lparr>columns = required_cols,
                rows = sort_key (num_key ''ID'')
                  (map (\<lambda>i. select_row required_cols
                          ((coerced_rows to_num today df required_cols kind ! i)
                             (''ID'' \<mapsto>
                                (if isna (id_num to_num required_cols df ! i)
                                 then Num (max_existing (id_num to_num required_cols df) + 1 +
                                        of_nat (length (filter isna
                                          (take i (id_num to_num required_cols df)))))
                                 else id_num to_num required_cols df ! i))))
                     [0..<length (rows df)])\<rparr>"
proof -
  have nn: "list_all num_or_null (id_num to_num required_cols df)"
    using assms(5) by (rule exact_num_or_null)
  have "numbered_rows to_num today df required_cols kind =
          map (\<lambda>i. select_row required_cols
                          ((coerced_rows to_num today df required_cols kind ! i)
                             (''ID'' \<mapsto>
                                (if isna (id_num to_num required_cols df ! i)
                                 then Num (max_existing (id_num to_num required_cols df) + 1 +
                                        of_nat (length (filter isna
                                          (take i (id_num to_num required_cols df)))))
                                 else id_num to_num required_cols df ! i))))
                     [0..<length (rows df)]"
    by (rule nth_equalityI)
       (simp_all add: nth_numbered_rows final_ids_nth_whole [OF nn assms(3,4)])
  then show ?thesis
    using normalize_valid [OF assms(1,2) followed_exact [OF assms(5)], of today] by simp
qed

theorem normalize_missing_ids_continue_witness:
  "valid_call REQUIRED_COLUMNS_SINGOLE ''singole'' \<and> \<not> empty_df sheet_gap \<and>
   id_num plain_decimal REQUIRED_COLUMNS_SINGOLE sheet_gap = [Num 5, Null, Num 2, Null] \<and>
   distinct (notna_values (id_num plain_decimal REQUIRED_COLUMNS_SINGOLE sheet_gap)) \<and>
   list_all is_whole (notna_values (id_num plain_decimal REQUIRED_COLUMNS_SINGOLE sheet_gap)) \<and>
   exact_ids (id_num plain_decimal REQUIRED_COLUMNS_SINGOLE sheet_gap) \<and>
   id_column (normalize plain_decimal ''2024-06-01'' sheet_gap REQUIRED_COLUMNS_SINGOLE ''singole'')
     = Inr [Num 2, Num 5, Num 6, Num 7]"
proof -
  have d: "distinct (notna_values (id_num plain_decimal REQUIRED_COLUMNS_SINGOLE sheet_gap))"
    by (simp add: ids_gap)
  have w: "list_all is_whole (notna_values (id_num plain_decimal REQUIRED_COLUMNS_SINGOLE sheet_gap))"
    by (simp add: ids_gap is_whole_def)
  have e: "exact_ids (id_num plain_decimal REQUIRED_COLUMNS_SINGOLE sheet_gap)"
    by (simp add: ids_gap exact_examples)
  have len: "length (rows sheet_gap) = 4" by (simp add: sheet_gap_def)
  have ID: "''ID'' \<in> set REQUIRED_COLUMNS_SINGOLE" by (simp add: REQUIRED_COLUMNS_SINGOLE_def)
  have "id_column (normalize plain_decimal ''2024-06-01'' sheet_gap
                     REQUIRED_COLUMNS_SINGOLE ''singole'') = Inr [Num 2, Num 5, Num 6, Num 7]"
    unfolding normalize_missing_ids_continue [OF valid_singole nonempty_examples(2) d w e] len ids_gap
    using ID
    by (simp add: id_column_def col_def num_key_cell_key [abs_def]
          map_sort_key [of "\<lambda>r. cell_of r ''ID''" cell_key] cell_of_select_row upt_rec
          isna_def max_existing_def cell_key_def)
  with d w e show ?thesis
    by (simp add: valid_singole nonempty_examples ids_gap)
qed

text \<open>
  The claim as stated fails for a fractional identifier: the worksheet holds the
  identifier 1.5 and a blank one; the result holds 1 and 2, so the numeric identifier
  is not kept and the new one is not the largest plus one.
\<close>

theorem normalize_fractional_id_truncated:
  "id_num plain_decimal REQUIRED_COLUMNS_SINGOLE sheet_half = [Num (3 / 2), Null] \<and>
   distinct (notna_values (id_num plain_decimal REQUIRED_COLUMNS_SINGOLE sheet_half)) \<and>
   id_column (normalize plain_decimal ''2024-06-01'' sheet_half REQUIRED_COLUMNS_SINGOLE ''singole'')
     = Inr [Num 1, Num 2] \<and>
   Num 1 \<noteq> Num (3 / 2) \<and> Num 2 \<noteq> Num (3 / 2 + 1)"
  by (simp add: id_column_normalize [OF valid_singole nonempty_examples(4)] ids_half
        final_ids_half followed_examples cell_key_def)

text \<open>
  C3. \<open>normalize\<close> raises on a table the claim covers. The worksheet of single wagers
  whose one row has the identifier \<open>inf\<close> is read with an infinite identifier, which is
  neither missing nor repeated, and \<open>int(id_num.max())\<close> raises \<open>OverflowError\<close>.
\<close>

theorem normalize_raises_on_infinite_id:
  "id_num plain_decimal REQUIRED_COLUMNS_SINGOLE sheet_inf = [Infty True] \<and>
   normalize plain_decimal ''2024-06-01'' sheet_inf REQUIRED_COLUMNS_SINGOLE ''singole''
     = Inl OverflowError"
  by (simp add: ids_inf normalize_overflow [OF valid_singole nonempty_examples(7)])

text \<open>
  The rest of the claim holds where \<open>_ensure_ids\<close> is followed. For each of the two
  kinds with its required columns, on a table whose identifiers are repeated or within
  the exact range, \<open>normalize\<close> returns a table: every \<open>KeyError\<close>, the \<open>ValueError\<close>
  on the kind and the errors of \<open>int\<close> and \<open>astype(int)\<close> are branches of the model,
  and none is taken. The columns of the result are the required columns in their order
  and every row holds exactly these columns; an empty table gives the empty table with
  the required columns, any other table keeps its number of rows. And whenever
  \<open>normalize\<close> returns, the columns are the required ones.
\<close>

lemma normalize_returns:
  assumes "valid_call required_cols kind"
    and "followed_ids (id_num to_num required_cols df)"
  shows "\<exists>out. normalize to_num today df required_cols kind = Inr out \<and>
           columns out = required_cols \<and>
           list_all (\<lambda>r. dom r = set required_cols) (rows out) \<and>
           (if empty_df df then out = new_frame required_cols
            else length (rows out) = length (rows df))"
proof (cases "empty_df df")
  case True
  then show ?thesis by (simp add: normalize_empty new_frame_def)
next
  case False
  have "list_all (\<lambda>r. dom r = set required_cols)
          (numbered_rows to_num today df required_cols kind)"
    by (simp add: list_all_length nth_numbered_rows)
  then show ?thesis
    using False by (simp add: normalize_valid [OF assms(1) False assms(2)] list_all_sort_key)
qed

lemma normalize_returns_examples:
  "normalize plain_decimal ''2024-06-01'' (new_frame []) REQUIRED_COLUMNS_SINGOLE ''singole''
     = Inr (new_frame REQUIRED_COLUMNS_SINGOLE) \<and>
   (\<exists>out. normalize plain_decimal ''2024-06-01'' sheet_multiple REQUIRED_COLUMNS_MULTIPLE ''multiple''
            = Inr out \<and>
          columns out = REQUIRED_COLUMNS_MULTIPLE \<and> length (rows out) = 2)"
proof -
  have e: "empty_df (new_frame [])" by (simp add: empty_df_def new_frame_def)
  have len: "length (rows sheet_multiple) = 2" by (simp add: sheet_multiple_def)
  have ids: "id_num plain_decimal REQUIRED_COLUMNS_MULTIPLE sheet_multiple = [Num 1, Num 2]"
    by (simp add: sheet_multiple_def id_num_def REQUIRED_COLUMNS_MULTIPLE_def cell_of_def
          reader_defs)
  have f: "followed_ids (id_num plain_decimal REQUIRED_COLUMNS_MULTIPLE sheet_multiple)"
    unfolding ids by (rule followed_examples)
  show ?thesis
    using normalize_returns [OF valid_multiple f, of "''2024-06-01''"]
    by (auto simp: e len nonempty_examples normalize_empty)
qed

lemma normalize_columns:
  assumes "valid_call required_cols kind"
    and "normalize to_num today df required_cols kind = Inr out"
  shows "columns out = required_cols"
proof (cases "empty_df df")
  case True
  with assms(2) show ?thesis by (auto simp: normalize_empty new_frame_def)
next
  case False
  with assms normalize_shape [OF assms(1) False assms(2)] show ?thesis by auto
qed

text \<open>
  C4. A table in canonical form is a fixed point of \<open>normalize\<close>
  (\<open>normalize_canonical\<close>), and normalising twice is normalising once whenever the
  identifiers are within the exact range and stay distinct once truncated
  (\<open>normalize_idempotent\<close>). Idempotence on every raw input fails in the program: the
  worksheet with the identifiers 1.2 and 1.7 has no blank date; one normalisation gives
  both rows the identifier 1, and normalising that result again renumbers them 1 and 2.
\<close>

theorem normalize_twice_differs:
  "id_column (normalize plain_decimal ''2024-06-01'' sheet_frac REQUIRED_COLUMNS_SINGOLE ''singole'')
     = Inr [Num 1, Num 1] \<and>
   id_column (normalize_twice plain_decimal ''2024-06-01'' sheet_frac
                REQUIRED_COLUMNS_SINGOLE ''singole'') = Inr [Num 1, Num 2] \<and>
   normalize_twice plain_decimal ''2024-06-01'' sheet_frac REQUIRED_COLUMNS_SINGOLE ''singole''
     \<noteq> normalize plain_decimal ''2024-06-01'' sheet_frac REQUIRED_COLUMNS_SINGOLE ''singole''"
proof -
  have one: "id_column (normalize plain_decimal ''2024-06-01'' sheet_frac
                          REQUIRED_COLUMNS_SINGOLE ''singole'') = Inr [Num 1, Num 1]"
    by (rule frac_normalized)
  have two: "id_column (normalize_twice plain_decimal ''2024-06-01'' sheet_frac
                          REQUIRED_COLUMNS_SINGOLE ''singole'') = Inr [Num 1, Num 2]"
    by (simp add: id_column_normalize_twice [OF valid_singole nonempty_examples(3)] ids_frac
          final_ids_frac final_ids_ones followed_examples cell_key_def)
  have "normalize_twice plain_decimal ''2024-06-01'' sheet_frac REQUIRED_COLUMNS_SINGOLE ''singole''
          \<noteq> normalize plain_decimal ''2024-06-01'' sheet_frac REQUIRED_COLUMNS_SINGOLE ''singole''"
  proof
    assume "normalize_twice plain_decimal ''2024-06-01'' sheet_frac REQUIRED_COLUMNS_SINGOLE ''singole''
          = normalize plain_decimal ''2024-06-01'' sheet_frac REQUIRED_COLUMNS_SINGOLE ''singole''"
    with one two show False by simp
  qed
  with one two show ?thesis by simp
qed

text \<open>
  C5 (amended). For every table whose identifiers are within the exact range (none is
  infinite, and none, the new ones included, is larger than \<open>2^53\<close> in magnitude), the
  identifiers \<open>normalize\<close> returns are integers in ascending order. They are pairwise
  distinct when no two distinct numeric identifiers of the input have the same integer
  part, and they are positive when every numeric identifier of the input is at least 1.
\<close>

theorem normalize_ids_sorted_integers:
  assumes "valid_call required_cols kind"
    and "exact_ids (id_num to_num required_cols df)"
  shows "\<exists>ks. id_column (normalize to_num today df required_cols kind) =
                 Inr (map (\<lambda>k. Num (of_int k)) ks) \<and>
              sorted ks \<and>
              ((distinct (notna_values (id_num to_num required_cols df)) \<longrightarrow>
                  distinct (map py_int (notna_values (id_num to_num required_cols df)))) \<longrightarrow>
               distinct ks) \<and>
              (list_all (\<lambda>q. 1 \<le> q) (notna_values (id_num to_num required_cols df)) \<longrightarrow>
               list_all (\<lambda>k. 1 \<le> k) ks)"
proof (cases "empty_df df")
  case True
  then have "id_column (normalize to_num today df required_cols kind) =
               Inr (map (\<lambda>k. Num (of_int k)) [])"
    by (simp add: id_column_normalize_empty)
  then show ?thesis by (intro exI [of _ "[]"]) simp
next
  case False
  let ?ids = "id_num to_num required_cols df"
  let ?ks = "sort (int_ids ?ids)"
  have nn: "list_all num_or_null ?ids" using assms(2) by (rule exact_num_or_null)
  have "id_column (normalize to_num today df required_cols kind) =
          Inr (map (\<lambda>k. Num (of_int k)) ?ks)"
    by (simp add: id_column_normalize [OF assms(1) False followed_exact [OF assms(2)]]
          final_ids_int_ids [OF nn] sort_int_cells)
  moreover have "sorted ?ks" by simp
  moreover have "distinct ?ks"
    if "distinct (notna_values ?ids) \<longrightarrow> distinct (map py_int (notna_values ?ids))"
    using that by (simp add: distinct_int_ids)
  moreover have "list_all (\<lambda>k. 1 \<le> k) ?ks" if "list_all (\<lambda>q. 1 \<le> q) (notna_values ?ids)"
    using that by (auto simp: list_all_iff intro: positive_int_ids)
  ultimately show ?thesis by blast
qed

theorem normalize_ids_sorted_integers_witness:
  "valid_call REQUIRED_COLUMNS_SINGOLE ''singole'' \<and>
   exact_ids (id_num plain_decimal REQUIRED_COLUMNS_SINGOLE sheet_gap) \<and>
   distinct (map py_int (notna_values (id_num plain_decimal REQUIRED_COLUMNS_SINGOLE sheet_gap))) \<and>
   list_all (\<lambda>q. 1 \<le> q) (notna_values (id_num plain_decimal REQUIRED_COLUMNS_SINGOLE sheet_gap)) \<and>
   (\<exists>ks. id_column (normalize plain_decimal ''2024-06-01'' sheet_gap
                       REQUIRED_COLUMNS_SINGOLE ''singole'') = Inr (map (\<lambda>k. Num (of_int k)) ks) \<and>
         sorted ks \<and> distinct ks \<and> list_all (\<lambda>k. 1 \<le> k) ks)"
proof -
  have e: "exact_ids (id_num plain_decimal REQUIRED_COLUMNS_SINGOLE sheet_gap)"
    by (simp add: ids_gap exact_examples)
  have d: "distinct (map py_int (notna_values (id_num plain_decimal REQUIRED_COLUMNS_SINGOLE sheet_gap)))"
    by (simp add: ids_gap)
  have p: "list_all (\<lambda>q. 1 \<le> q) (notna_values (id_num plain_decimal REQUIRED_COLUMNS_SINGOLE sheet_gap))"
    by (simp add: ids_gap)
  from normalize_ids_sorted_integers [OF valid_singole e, of "''2024-06-01''"]
  obtain ks where
    "id_column (normalize plain_decimal ''2024-06-01'' sheet_gap
                  REQUIRED_COLUMNS_SINGOLE ''singole'') = Inr (map (\<lambda>k. Num (of_int k)) ks)"
    "sorted ks"
    "(distinct (notna_values (id_num plain_decimal REQUIRED_COLUMNS_SINGOLE sheet_gap)) \<longrightarrow>
        distinct (map py_int (notna_values (id_num plain_decimal REQUIRED_COLUMNS_SINGOLE sheet_gap))))
      \<longrightarrow> distinct ks"
    "list_all (\<lambda>q. 1 \<le> q) (notna_values (id_num plain_decimal REQUIRED_COLUMNS_SINGOLE sheet_gap))
      \<longrightarrow> list_all (\<lambda>k. 1 \<le> k) ks"
    by blast
  with e d p show ?thesis
    using valid_singole by blast
qed

text \<open>
  The claim as stated fails twice: a worksheet whose only identifier is 0 keeps it, so
  an identifier of the result is not positive; and the worksheet with the identifiers
  1.2 and 1.7 gives the identifier 1 to both rows.
\<close>

theorem normalize_ids_not_positive_or_repeated:
  "id_column (normalize plain_decimal ''2024-06-01'' sheet_zero REQUIRED_COLUMNS_SINGOLE ''singole'')
     = Inr [Num 0] \<and>
   id_column (normalize plain_decimal ''2024-06-01'' sheet_frac REQUIRED_COLUMNS_SINGOLE ''singole'')
     = Inr [Num 1, Num 1]"
  by (simp add: id_column_normalize [OF valid_singole nonempty_examples(5)] ids_zero
        final_ids_zero followed_examples frac_normalized)

text \<open>
  C6. \<open>normalize\<close> coerces the enumerated fields of every row on their own. Lines 88 to
  113 always return a table \<open>d\<close> with one row for each row of the input, in the same
  order: the outcome of row \<open>i\<close> is kept when it is one of the three outcomes and is
  \<open>In attesa\<close> otherwise (also when it is empty or missing), and for single wagers the
  league is kept when it is in the list of leagues and is \<open>Altro\<close> otherwise. Whenever
  \<open>normalize\<close> returns a table, its rows are the rows of \<open>d\<close>, each with an
  identifier put in and cut to the required columns, in some order.
\<close>

theorem normalize_enumerated_fields:
  assumes "valid_call required_cols kind" and "\<not> empty_df df"
  shows "\<exists>d. coerce_fields to_num today df required_cols kind = Inr d \<and>
             length (rows d) = length (rows df) \<and>
             (\<forall>i<length (rows df).
                cell_of (rows d ! i) ''Esito'' =
                  (let v = cell_of (input_rows required_cols df ! i) ''Esito''
                   in if isin v OUTCOMES then v else Txt ''In attesa'') \<and>
                (kind = ''singole'' \<longrightarrow>
                   cell_of (rows d ! i) ''Campionato'' =
                     (let v = cell_of (input_rows required_cols df ! i) ''Campionato''
                      in if isin v LEAGUES then v else Txt ''Altro''))) \<and>
             (\<forall>out. normalize to_num today df required_cols kind = Inr out \<longrightarrow>
                (\<exists>ids. length ids = length (rows df) \<and>
                       mset (rows out) =
                       mset (map2 (\<lambda>r v. select_row required_cols (r(''ID'' \<mapsto> v)))
                               (rows d) ids)))"
proof -
  define d where "d = map_rows (kind_row to_num kind \<circ> common_row today)
                        (ensure_columns required_cols df)"
  have step: "coerce_fields to_num today df required_cols kind = Inr d"
    using assms(1) by (simp add: coerce_fields_valid d_def)
  have rws: "rows d = coerced_rows to_num today df required_cols kind"
    unfolding d_def by (rule rows_coerced)
  have len: "length (rows d) = length (rows df)" by (simp add: rws)
  have esito: "cell_of (rows d ! i) ''Esito'' =
                  (let v = cell_of (input_rows required_cols df ! i) ''Esito''
                   in if isin v OUTCOMES then v else Txt ''In attesa'')"
    if "i < length (rows df)" for i
    unfolding rws coerced_cell [OF that] Esito_coerced Let_def ..
  have league: "cell_of (rows d ! i) ''Campionato'' =
                     (let v = cell_of (input_rows required_cols df ! i) ''Campionato''
                      in if isin v LEAGUES then v else Txt ''Altro'')"
    if "i < length (rows df)" and "kind = ''singole''" for i
    unfolding rws coerced_cell [OF that(1)] that(2) Campionato_coerced Let_def ..
  have link: "\<exists>ids. length ids = length (rows df) \<and>
                       mset (rows out) =
                       mset (map2 (\<lambda>r v. select_row required_cols (r(''ID'' \<mapsto> v)))
                               (rows d) ids)"
    if "normalize to_num today df required_cols kind = Inr out" for out
  proof -
    from normalize_shape [OF assms that] obtain ids where
      ids: "length ids = length (rows df)"
        "out = \<lparr>columns = required_cols,
                rows = sort_key (num_key ''ID'')
                         (map2 (\<lambda>r v. select_row required_cols (r(''ID'' \<mapsto> v)))
                            (coerced_rows to_num today df required_cols kind) ids)\<rparr>"
      by blast
    from ids(2) have "mset (rows out) =
        mset (map2 (\<lambda>r v. select_row required_cols (r(''ID'' \<mapsto> v))) (rows d) ids)"
      by (simp add: rws)
    with ids(1) show ?thesis by blast
  qed
  from step len esito league link show ?thesis by blast
qed

theorem normalize_enumerated_fields_witness:
  "valid_call REQUIRED_COLUMNS_SINGOLE ''singole'' \<and> \<not> empty_df sheet_dup \<and>
   cell_of (input_rows REQUIRED_COLUMNS_SINGOLE sheet_dup ! 1) ''Esito'' = Txt ''boh'' \<and>
   cell_of (input_rows REQUIRED_COLUMNS_SINGOLE sheet_dup ! 1) ''Campionato'' = Txt ''Serie Z'' \<and>
   cell_of (input_rows REQUIRED_COLUMNS_SINGOLE sheet_dup ! 2) ''Esito'' = Txt ''Persa'' \<and>
   cell_of (input_rows REQUIRED_COLUMNS_SINGOLE sheet_dup ! 2) ''Campionato'' = Txt ''Liga'' \<and>
   (\<exists>d. coerce_fields plain_decimal ''2024-06-01'' sheet_dup REQUIRED_COLUMNS_SINGOLE ''singole''
           = Inr d \<and>
        length (rows d) = 3 \<and>
        cell_of (rows d ! 1) ''Esito'' = Txt ''In attesa'' \<and>
        cell_of (rows d ! 1) ''Campionato'' = Txt ''Altro'' \<and>
        cell_of (rows d ! 2) ''Esito'' = Txt ''Persa'' \<and>
        cell_of (rows d ! 2) ''Campionato'' = Txt ''Liga'' \<and>
        (\<exists>out ids.
           normalize plain_decimal ''2024-06-01'' sheet_dup REQUIRED_COLUMNS_SINGOLE ''singole''
             = Inr out \<and>
           length ids = 3 \<and>
           mset (rows out) =
           mset (map2 (\<lambda>r v. select_row REQUIRED_COLUMNS_SINGOLE (r(''ID'' \<mapsto> v)))
                   (rows d) ids)))"
proof -
  have cells:
    "cell_of (input_rows REQUIRED_COLUMNS_SINGOLE sheet_dup ! Suc 0) ''Esito'' = Txt ''boh''"
    "cell_of (input_rows REQUIRED_COLUMNS_SINGOLE sheet_dup ! Suc 0) ''Campionato'' = Txt ''Serie Z''"
    "cell_of (input_rows REQUIRED_COLUMNS_SINGOLE sheet_dup ! 2) ''Esito'' = Txt ''Persa''"
    "cell_of (input_rows REQUIRED_COLUMNS_SINGOLE sheet_dup ! 2) ''Campionato'' = Txt ''Liga''"
    by (simp_all add: sheet_dup_def cell_of_def REQUIRED_COLUMNS_SINGOLE_def)
  have len: "length (rows sheet_dup) = 3" by (simp add: sheet_dup_def)
  have f: "followed_ids (id_num plain_decimal REQUIRED_COLUMNS_SINGOLE sheet_dup)"
    unfolding ids_dup by (rule followed_examples)
  obtain out where
    out: "normalize plain_decimal ''2024-06-01'' sheet_dup REQUIRED_COLUMNS_SINGOLE ''singole''
            = Inr out"
    using normalize_valid [OF valid_singole nonempty_examples(1) f] by blast
  from normalize_enumerated_fields [OF valid_singole nonempty_examples(1),
      of plain_decimal "''2024-06-01''", unfolded len]
  obtain d where
    d: "coerce_fields plain_decimal ''2024-06-01'' sheet_dup REQUIRED_COLUMNS_SINGOLE ''singole''
          = Inr d"
      "length (rows d) = 3"
    and c: "\<And>i. i < 3 \<Longrightarrow>
        cell_of (rows d ! i) ''Esito'' =
          (let v = cell_of (input_rows REQUIRED_COLUMNS_SINGOLE sheet_dup ! i) ''Esito''
           in if isin v OUTCOMES then v else Txt ''In attesa'') \<and>
        (''singole'' = ''singole'' \<longrightarrow>
           cell_of (rows d ! i) ''Campionato'' =
             (let v = cell_of (input_rows REQUIRED_COLUMNS_SINGOLE sheet_dup ! i) ''Campionato''
              in if isin v LEAGUES then v else Txt ''Altro''))"
    and l: "\<And>out. normalize plain_decimal ''2024-06-01'' sheet_dup
                     REQUIRED_COLUMNS_SINGOLE ''singole'' = Inr out \<Longrightarrow>
        \<exists>ids. length ids = 3 \<and>
              mset (rows out) =
              mset (map2 (\<lambda>r v. select_row REQUIRED_COLUMNS_SINGOLE (r(''ID'' \<mapsto> v)))
                      (rows d) ids)"
    by blast
  have t1: "(Suc 0) < 3" and t2: "(2::nat) < 3" by simp_all
  have r1: "cell_of (rows d ! Suc 0) ''Esito'' = Txt ''In attesa''"
    "cell_of (rows d ! Suc 0) ''Campionato'' = Txt ''Altro''"
    using c [OF t1] by (simp_all add: cells isin_def OUTCOMES_def LEAGUES_def)
  have r2: "cell_of (rows d ! 2) ''Esito'' = Txt ''Persa''"
    "cell_of (rows d ! 2) ''Campionato'' = Txt ''Liga''"
    using c [OF t2] by (simp_all add: cells isin_def OUTCOMES_def LEAGUES_def)
  from l [OF out] out d r1 r2 show ?thesis
    by (simp add: valid_singole nonempty_examples cells)
qed

text \<open>
  C7. \<open>normalize\<close> reads the numeric fields of every row and the reading raises
  nothing. Lines 88 to 113 always return a table \<open>d\<close> with one row for each row of the
  input, in the same order. The odds of a single wager and the total odds of a
  combination wager are missing when the cell is a text the reader does not read as a
  number, and the number read otherwise; the stake is 0 when the cell is missing or a
  text the reader does not read as a number, and the number read otherwise. Whenever
  \<open>normalize\<close> returns a table, its rows are the rows of \<open>d\<close>, each with an
  identifier put in and cut to the required columns, in some order.
\<close>

theorem normalize_numeric_fields:
  assumes "valid_call required_cols kind" and "\<not> empty_df df"
  shows "\<exists>d. coerce_fields to_num today df required_cols kind = Inr d \<and>
             length (rows d) = length (rows df) \<and>
             (\<forall>i<length (rows df).
                (kind = ''singole'' \<longrightarrow>
                   cell_of (rows d ! i) ''Quota'' =
                     (case cell_of (input_rows required_cols df ! i) ''Quota'' of
                        Txt s \<Rightarrow> (case to_num s of
                                    Unread \<Rightarrow> Null | Finite q \<Rightarrow> Num q | Infinite b \<Rightarrow> Infty b)
                      | v \<Rightarrow> v)) \<and>
                (kind = ''multiple'' \<longrightarrow>
                   cell_of (rows d ! i) ''Quota Totale'' =
                     (case cell_of (input_rows required_cols df ! i) ''Quota Totale'' of
                        Txt s \<Rightarrow> (case to_num s of
                                    Unread \<Rightarrow> Null | Finite q \<Rightarrow> Num q | Infinite b \<Rightarrow> Infty b)
                      | v \<Rightarrow> v) \<and>
                   cell_of (rows d ! i) ''Stake'' =
                     (case cell_of (input_rows required_cols df ! i) ''Stake'' of
                        Txt s \<Rightarrow> (case to_num s of
                                    Unread \<Rightarrow> Num 0 | Finite q \<Rightarrow> Num q | Infinite b \<Rightarrow> Infty b)
                      | Null \<Rightarrow> Num 0
                      | v \<Rightarrow> v))) \<and>
             (\<forall>out. normalize to_num today df required_cols kind = Inr out \<longrightarrow>
                (\<exists>ids. length ids = length (rows df) \<and>
                       mset (rows out) =
                       mset (map2 (\<lambda>r v. select_row required_cols (r(''ID'' \<mapsto> v)))
                               (rows d) ids)))"
proof -
  define d where "d = map_rows (kind_row to_num kind \<circ> common_row today)
                        (ensure_columns required_cols df)"
  have step: "coerce_fields to_num today df required_cols kind = Inr d"
    using assms(1) by (simp add: coerce_fields_valid d_def)
  have rws: "rows d = coerced_rows to_num today df required_cols kind"
    unfolding d_def by (rule rows_coerced)
  have len: "length (rows d) = length (rows df)" by (simp add: rws)
  have odds: "to_numeric to_num v =
                (case v of
                   Txt s \<Rightarrow> (case to_num s of
                               Unread \<Rightarrow> Null | Finite q \<Rightarrow> Num q | Infinite b \<Rightarrow> Infty b)
                 | v \<Rightarrow> v)" for v
    by (simp add: to_numeric_def split: cell.splits)
  have stake: "fillna (Num 0) (to_numeric to_num v) =
                (case v of
                   Txt s \<Rightarrow> (case to_num s of
                               Unread \<Rightarrow> Num 0 | Finite q \<Rightarrow> Num q | Infinite b \<Rightarrow> Infty b)
                 | Null \<Rightarrow> Num 0
                 | v \<Rightarrow> v)" for v
    by (simp add: to_numeric_def fillna_def split: cell.splits reading.splits)
  have quota: "cell_of (rows d ! i) ''Quota'' =
                     (case cell_of (input_rows required_cols df ! i) ''Quota'' of
                        Txt s \<Rightarrow> (case to_num s of
                                    Unread \<Rightarrow> Null | Finite q \<Rightarrow> Num q | Infinite b \<Rightarrow> Infty b)
                      | v \<Rightarrow> v)"
    if "i < length (rows df)" and "kind = ''singole''" for i
    unfolding rws coerced_cell [OF that(1)] that(2) Quota_coerced odds ..
  have total: "cell_of (rows d ! i) ''Quota Totale'' =
                     (case cell_of (input_rows required_cols df ! i) ''Quota Totale'' of
                        Txt s \<Rightarrow> (case to_num s of
                                    Unread \<Rightarrow> Null | Finite q \<Rightarrow> Num q | Infinite b \<Rightarrow> Infty b)
                      | v \<Rightarrow> v)"
    if "i < length (rows df)" and "kind = ''multiple''" for i
    unfolding rws coerced_cell [OF that(1)] that(2) Quota_Totale_coerced odds ..
  have stk: "cell_of (rows d ! i) ''Stake'' =
                     (case cell_of (input_rows required_cols df ! i) ''Stake'' of
                        Txt s \<Rightarrow> (case to_num s of
                                    Unread \<Rightarrow> Num 0 | Finite q \<Rightarrow> Num q | Infinite b \<Rightarrow> Infty b)
                      | Null \<Rightarrow> Num 0
                      | v \<Rightarrow> v)"
    if "i < length (rows df)" and "kind = ''multiple''" for i
    unfolding rws coerced_cell [OF that(1)] that(2) Stake_coerced stake ..
  have link: "\<exists>ids. length ids = length (rows df) \<and>
                       mset (rows out) =
                       mset (map2 (\<lambda>r v. select_row required_cols (r(''ID'' \<mapsto> v)))
                               (rows d) ids)"
    if "normalize to_num today df required_cols kind = Inr out" for out
  proof -
    from normalize_shape [OF assms that] obtain ids where
      ids: "length ids = length (rows df)"
        "out = \<lparr>columns = required_cols,
                rows = sort_key (num_key ''ID'')
                         (map2 (\<lambda>r v. select_row required_cols (r(''ID'' \<mapsto> v)))
                            (coerced_rows to_num today df required_cols kind) ids)\<rparr>"
      by blast
    from ids(2) have "mset (rows out) =
        mset (map2 (\<lambda>r v. select_row required_cols (r(''ID'' \<mapsto> v))) (rows d) ids)"
      by (simp add: rws)
    with ids(1) show ?thesis by blast
  qed
  from step len quota total stk link show ?thesis by blast
qed

theorem normalize_numeric_fields_witness:
  "valid_call REQUIRED_COLUMNS_SINGOLE ''singole'' \<and> \<not> empty_df sheet_dup \<and>
   cell_of (input_rows REQUIRED_COLUMNS_SINGOLE sheet_dup ! 1) ''Quota'' = Txt ''abc'' \<and>
   plain_decimal ''abc'' = Unread \<and>
   cell_of (input_rows REQUIRED_COLUMNS_SINGOLE sheet_dup ! 2) ''Quota'' = Txt ''2.5'' \<and>
   plain_decimal ''2.5'' = Finite (5 / 2) \<and>
   (\<exists>d. coerce_fields plain_decimal ''2024-06-01'' sheet_dup REQUIRED_COLUMNS_SINGOLE ''singole''
           = Inr d \<and>
        cell_of (rows d ! 1) ''Quota'' = Null \<and>
        cell_of (rows d ! 2) ''Quota'' = Num (5 / 2) \<and>
        (\<exists>out ids.
           normalize plain_decimal ''2024-06-01'' sheet_dup REQUIRED_COLUMNS_SINGOLE ''singole''
             = Inr out \<and>
           length ids = 3 \<and>
           mset (rows out) =
           mset (map2 (\<lambda>r v. select_row REQUIRED_COLUMNS_SINGOLE (r(''ID'' \<mapsto> v)))
                   (rows d) ids))) \<and>
   valid_call REQUIRED_COLUMNS_MULTIPLE ''multiple'' \<and> \<not> empty_df sheet_multiple \<and>
   cell_of (input_rows REQUIRED_COLUMNS_MULTIPLE sheet_multiple ! 1) ''Quota Totale'' = Txt ''n/a'' \<and>
   cell_of (input_rows REQUIRED_COLUMNS_MULTIPLE sheet_multiple ! 1) ''Stake'' = Txt ''ten'' \<and>
   cell_of (input_rows REQUIRED_COLUMNS_MULTIPLE sheet_multiple ! 0) ''Stake'' = Txt ''10'' \<and>
   plain_decimal ''n/a'' = Unread \<and> plain_decimal ''ten'' = Unread \<and>
   plain_decimal ''10'' = Finite 10 \<and>
   (\<exists>d. coerce_fields plain_decimal ''2024-06-01'' sheet_multiple
           REQUIRED_COLUMNS_MULTIPLE ''multiple'' = Inr d \<and>
        cell_of (rows d ! 1) ''Quota Totale'' = Null \<and>
        cell_of (rows d ! 1) ''Stake'' = Num 0 \<and>
        cell_of (rows d ! 0) ''Stake'' = Num 10)"
proof -
  have cells:
    "cell_of (input_rows REQUIRED_COLUMNS_SINGOLE sheet_dup ! Suc 0) ''Quota'' = Txt ''abc''"
    "cell_of (input_rows REQUIRED_COLUMNS_SINGOLE sheet_dup ! 2) ''Quota'' = Txt ''2.5''"
    "cell_of (input_rows REQUIRED_COLUMNS_MULTIPLE sheet_multiple ! Suc 0) ''Quota Totale'' = Txt ''n/a''"
    "cell_of (input_rows REQUIRED_COLUMNS_MULTIPLE sheet_multiple ! Suc 0) ''Stake'' = Txt ''ten''"
    "cell_of (input_rows REQUIRED_COLUMNS_MULTIPLE sheet_multiple ! 0) ''Stake'' = Txt ''10''"
    by (simp_all add: sheet_dup_def sheet_multiple_def cell_of_def REQUIRED_COLUMNS_SINGOLE_def
          REQUIRED_COLUMNS_MULTIPLE_def)
  have reads: "plain_decimal ''abc'' = Unread"
    "plain_decimal ''2.5'' = Finite (5 / 2)"
    "plain_decimal ''n/a'' = Unread"
    "plain_decimal ''ten'' = Unread"
    "plain_decimal ''10'' = Finite 10"
    by (simp_all add: reader_defs)
  have len: "length (rows sheet_dup) = 3" "length (rows sheet_multiple) = 2"
    by (simp_all add: sheet_dup_def sheet_multiple_def)
  have f: "followed_ids (id_num plain_decimal REQUIRED_COLUMNS_SINGOLE sheet_dup)"
    unfolding ids_dup by (rule followed_examples)
  obtain out where
    out: "normalize plain_decimal ''2024-06-01'' sheet_dup REQUIRED_COLUMNS_SINGOLE ''singole''
            = Inr out"
    using normalize_valid [OF valid_singole nonempty_examples(1) f] by blast
  from normalize_numeric_fields [OF valid_singole nonempty_examples(1),
      of plain_decimal "''2024-06-01''", unfolded len]
  obtain d where
    d: "coerce_fields plain_decimal ''2024-06-01'' sheet_dup REQUIRED_COLUMNS_SINGOLE ''singole''
          = Inr d"
    and c: "\<And>i. i < 3 \<Longrightarrow>
        cell_of (rows d ! i) ''Quota'' =
          (case cell_of (input_rows REQUIRED_COLUMNS_SINGOLE sheet_dup ! i) ''Quota'' of
             Txt s \<Rightarrow> (case plain_decimal s of
                         Unread \<Rightarrow> Null | Finite q \<Rightarrow> Num q | Infinite b \<Rightarrow> Infty b)
           | v \<Rightarrow> v)"
    and l: "\<And>out. normalize plain_decimal ''2024-06-01'' sheet_dup
                     REQUIRED_COLUMNS_SINGOLE ''singole'' = Inr out \<Longrightarrow>
        \<exists>ids. length ids = 3 \<and>
              mset (rows out) =
              mset (map2 (\<lambda>r v. select_row REQUIRED_COLUMNS_SINGOLE (r(''ID'' \<mapsto> v)))
                      (rows d) ids)"
    by auto
  have t1: "(Suc 0) < 3" and t2: "(2::nat) < 3" by simp_all
  have r: "cell_of (rows d ! Suc 0) ''Quota'' = Null"
    "cell_of (rows d ! 2) ''Quota'' = Num (5 / 2)"
    using c [OF t1] c [OF t2] by (simp_all add: cells reads)
  from l [OF out] out d r
  have single: "\<exists>d. coerce_fields plain_decimal ''2024-06-01'' sheet_dup
           REQUIRED_COLUMNS_SINGOLE ''singole'' = Inr d \<and>
        cell_of (rows d ! 1) ''Quota'' = Null \<and>
        cell_of (rows d ! 2) ''Quota'' = Num (5 / 2) \<and>
        (\<exists>out ids.
           normalize plain_decimal ''2024-06-01'' sheet_dup REQUIRED_COLUMNS_SINGOLE ''singole''
             = Inr out \<and>
           length ids = 3 \<and>
           mset (rows out) =
           mset (map2 (\<lambda>r v. select_row REQUIRED_COLUMNS_SINGOLE (r(''ID'' \<mapsto> v)))
                   (rows d) ids))"
    by simp
  from normalize_numeric_fields [OF valid_multiple nonempty_examples(6),
      of plain_decimal "''2024-06-01''", unfolded len]
  obtain m where
    m: "coerce_fields plain_decimal ''2024-06-01'' sheet_multiple
          REQUIRED_COLUMNS_MULTIPLE ''multiple'' = Inr m"
    and cm: "\<And>i. i < 2 \<Longrightarrow>
        cell_of (rows m ! i) ''Quota Totale'' =
          (case cell_of (input_rows REQUIRED_COLUMNS_MULTIPLE sheet_multiple ! i) ''Quota Totale'' of
             Txt s \<Rightarrow> (case plain_decimal s of
                         Unread \<Rightarrow> Null | Finite q \<Rightarrow> Num q | Infinite b \<Rightarrow> Infty b)
           | v \<Rightarrow> v) \<and>
        cell_of (rows m ! i) ''Stake'' =
          (case cell_of (input_rows REQUIRED_COLUMNS_MULTIPLE sheet_multiple ! i) ''Stake'' of
             Txt s \<Rightarrow> (case plain_decimal s of
                         Unread \<Rightarrow> Num 0 | Finite q \<Rightarrow> Num q | Infinite b \<Rightarrow> Infty b)
           | Null \<Rightarrow> Num 0
           | v \<Rightarrow> v)"
    by auto
  have m1: "(Suc 0) < 2" and m0: "(0::nat) < 2" by simp_all
  have rm: "cell_of (rows m ! Suc 0) ''Quota Totale'' = Null"
    "cell_of (rows m ! Suc 0) ''Stake'' = Num 0"
    "cell_of (rows m ! 0) ''Stake'' = Num 10"
    using cm [OF m1] cm [OF m0] by (simp_all add: cells reads)
  from m rm
  have multiple: "\<exists>d. coerce_fields plain_decimal ''2024-06-01'' sheet_multiple
           REQUIRED_COLUMNS_MULTIPLE ''multiple'' = Inr d \<and>
        cell_of (rows d ! 1) ''Quota Totale'' = Null \<and>
        cell_of (rows d ! 1) ''Stake'' = Num 0 \<and>
        cell_of (rows d ! 0) ''Stake'' = Num 10"
    by simp
  from single multiple show ?thesis
    by (simp add: valid_singole valid_multiple nonempty_examples cells reads)
qed

text \<open>
  C8 (amended). For a record whose odds are a number (and, for a combination wager,
  whose stake is a number too), the profit of a single wager at unit stake is the odds
  minus 1 when won, -1 when lost and 0 when pending, and the profit of a combination
  wager is the stake times the total odds minus 1 when won, minus the stake when lost
  and 0 when pending.
\<close>

theorem profit_formulas:
  "profit_unit_stake (Some q) ''Vinta'' = q - 1 \<and>
   profit_unit_stake (Some q) ''Persa'' = - 1 \<and>
   profit_unit_stake (Some q) ''In attesa'' = 0 \<and>
   profit_with_stake (Some q) ''Vinta'' (Some s) = s * (q - 1) \<and>
   profit_with_stake (Some q) ''Persa'' (Some s) = - s \<and>
   profit_with_stake (Some q) ''In attesa'' (Some s) = 0"
  by (simp add: profit_unit_stake_def profit_with_stake_def)

theorem profit_lost_without_odds:
  "profit_unit_stake None ''Persa'' \<noteq> - 1 \<and> profit_with_stake None ''Persa'' (Some 10) \<noteq> - 10"
  by (simp add: profit_unit_stake_def profit_with_stake_def)

text \<open>
  C9. The round trip through the store fails in the program. \<open>normalize\<close> gives the
  worksheet with the identifiers 1.2 and 1.7 the identifier 1 twice; written as texts
  and read back, the two rows carry the same identifier and are renumbered 1 and 2, so
  the table read back is not the table that was written.
\<close>

theorem round_trip_differs:
  "id_column (normalize plain_decimal ''2024-06-01'' sheet_frac REQUIRED_COLUMNS_SINGOLE ''singole'')
     = Inr [Num 1, Num 1] \<and>
   id_column (round_trip plain_decimal whole_text ''2024-06-01'' ''2024-06-01'' sheet_frac ''singole'')
     = Inr [Num 1, Num 2] \<and>
   round_trip plain_decimal whole_text ''2024-06-01'' ''2024-06-01'' sheet_frac ''singole''
     \<noteq> normalize plain_decimal ''2024-06-01'' sheet_frac REQUIRED_COLUMNS_SINGOLE ''singole''"
proof -
  have one: "id_column (normalize plain_decimal ''2024-06-01'' sheet_frac
                          REQUIRED_COLUMNS_SINGOLE ''singole'') = Inr [Num 1, Num 1]"
    by (rule frac_normalized)
  have two: "id_column (round_trip plain_decimal whole_text ''2024-06-01'' ''2024-06-01''
                          sheet_frac ''singole'') = Inr [Num 1, Num 2]"
    by (simp add: id_column_round_trip [OF valid_singole nonempty_examples(3)] ids_frac
          final_ids_frac final_ids_ones followed_examples reread_one cell_key_def)
  have "round_trip plain_decimal whole_text ''2024-06-01'' ''2024-06-01'' sheet_frac ''singole''
          \<noteq> normalize plain_decimal ''2024-06-01'' sheet_frac REQUIRED_COLUMNS_SINGOLE ''singole''"
  proof
    assume "round_trip plain_decimal whole_text ''2024-06-01'' ''2024-06-01'' sheet_frac ''singole''
          = normalize plain_decimal ''2024-06-01'' sheet_frac REQUIRED_COLUMNS_SINGOLE ''singole''"
    with one two show False by simp
  qed
  with one two show ?thesis by simp
qed

text \<open>
  C10. Whatever the outcome, also won or lost, the profit at unit stake is 0 when the
  odds are missing, and the profit with a stake is 0 when the total odds or the stake
  are missing.
\<close>

theorem profit_zero_without_numbers:
  "profit_unit_stake None outcome = 0 \<and>
   profit_with_stake None outcome stake = 0 \<and>
   profit_with_stake odds outcome None = 0"
  by (simp add: profit_unit_stake_def profit_with_stake_def split: option.splits)

end
